theory Spec2Isabelle
  imports Complex_Main
begin

section \<open>Data model shared by the three variants of \<open>App\<close>\<close>

text \<open>
  The records follow the TypeScript types at the head of each source file.  JavaScript
  numbers that are used as identifiers, indices and counts are integers; pixel offsets,
  wheel deltas and media times are real numbers (the finite doubles are real numbers;
  the rounding of the arithmetic of the gesture handlers is made explicit below).  In \<open>PexelsVideo\<close> the field \<open>user\<close> is
  read with optional chaining (\<open>video.user?.name\<close>), so it is optional in the model.
\<close>

record PexelsUser =
  user_id :: int
  user_name :: string
  user_url :: string

record PexelsVideoFile =
  file_id :: int
  quality :: string
  file_type :: string
  width :: int
  height :: int
  link :: string

record PexelsVideo =
  pv_id :: int
  pv_duration :: real
  pv_image :: string
  pv_user :: "PexelsUser option"
  video_files :: "PexelsVideoFile list"

record FeedVideo =
  fv_id :: int
  src :: string
  previewImage :: string
  duration :: real
  photographer :: string
  photographerUrl :: string

datatype status = Idle | Loading | Success | Error

subsection \<open>Response shaping: \<open>data.videos.map(...).filter(Boolean)\<close>\<close>

text \<open>\<open>Array.prototype.find\<close>: the first element satisfying the predicate, or undefined.\<close>

fun js_find :: "('a \<Rightarrow> bool) \<Rightarrow> 'a list \<Rightarrow> 'a option" where
  "js_find p [] = None"
| "js_find p (x # xs) = (if p x then Some x else js_find p xs)"

text \<open>\<open>a ?? b\<close> on an optional value.\<close>

definition nullish :: "'a option \<Rightarrow> 'a option \<Rightarrow> 'a option" where
  "nullish a b = (case a of Some x \<Rightarrow> Some x | None \<Rightarrow> b)"

text \<open>
  The callback of \<open>data.videos.map\<close>: keep the MP4 renditions, prefer quality \<open>hd\<close>, then
  \<open>sd\<close>, then the first MP4 rendition; a record without an MP4 rendition maps to null.
\<close>

definition formatVideo :: "PexelsVideo \<Rightarrow> FeedVideo option" where
  "formatVideo video =
     (let mp4Files = filter (\<lambda>file. file_type file = ''video/mp4'') (video_files video)
      in if mp4Files = [] then None
         else
           (case nullish (js_find (\<lambda>file. quality file = ''hd'') mp4Files)
                   (nullish (js_find (\<lambda>file. quality file = ''sd'') mp4Files)
                      (case mp4Files of [] \<Rightarrow> None | f # _ \<Rightarrow> Some f)) of
              None \<Rightarrow> None
            | Some preferred \<Rightarrow>
                Some \<lparr> fv_id = pv_id video,
                       src = link preferred,
                       previewImage = pv_image video,
                       duration = pv_duration video,
                       photographer =
                         (case pv_user video of Some u \<Rightarrow> user_name u
                          | None \<Rightarrow> ''Unknown creator''),
                       photographerUrl =
                         (case pv_user video of Some u \<Rightarrow> user_url u
                          | None \<Rightarrow> ''https://www.pexels.com/videos/'') \<rparr>))"

text \<open>\<open>.map(...).filter(Boolean)\<close>: the null results are dropped, the order is kept.\<close>

definition formatted_of :: "PexelsVideo list \<Rightarrow> FeedVideo list" where
  "formatted_of raw = List.map_filter formatVideo raw"

section \<open>The paginated variant (\<open>PER_PAGE = 12\<close>, \<open>fetchVideos\<close>, \<open>loadMore\<close>)\<close>

definition PER_PAGE :: nat where
  "PER_PAGE = 12"

text \<open>
  \<open>API_KEY = import.meta.env.VITE_PEXELS_API_KEY ?? '<literal>'\<close>.  The environment
  variable is a string or undefined; \<open>??\<close> replaces only undefined, so an empty string
  stays empty.
\<close>

definition DEFAULT_KEY :: string where
  "DEFAULT_KEY = ''oigofsD0VKNu7nW2ah8RZQ2hxY0z2KeT3jL2qhcj2uAB0ckoQtxZw5m5''"

definition API_KEY :: "string option \<Rightarrow> string" where
  "API_KEY env = (case env of Some k \<Rightarrow> k | None \<Rightarrow> DEFAULT_KEY)"

text \<open>\<open>!API_KEY\<close>: a string is falsy exactly when it is empty.\<close>

definition key_missing :: "string option \<Rightarrow> bool" where
  "key_missing env = (API_KEY env = [])"

text \<open>
  What \<open>await fetch(url, ...)\<close> followed by \<open>response.json()\<close> can produce: a body, a
  response that is not \<open>ok\<close> (status and status text), a rejection with some other
  error (its message, if it is an \<open>Error\<close>), or the rejection of an aborted request.
\<close>

datatype fetch_result =
    Ok "PexelsVideo list"
  | NotOk nat string
  | Failed "string option"
  | Aborted

text \<open>
  A \<open><video>\<close> element, as far as the code drives it: \<open>playing\<close> is true after
  \<open>play()\<close> was requested and until \<open>pause()\<close> is called (a rejected request is ignored by
  the code and is not distinguished here), \<open>muted\<close> and \<open>currentTime\<close> are the properties
  of the same names.  The JSX renders every element with the \<open>muted\<close> attribute and
  without \<open>autoPlay\<close>.
\<close>

record element =
  playing :: bool
  muted :: bool
  currentTime :: real

definition fresh_element :: element where
  "fresh_element = \<lparr> playing = False, muted = True, currentTime = 0 \<rparr>"

text \<open>
  The \<open>useState\<close> cells and the registry \<open>videoRefs.current\<close> that all three variants
  declare.  The registry is the list of entries of the object, keyed by video id;
  \<open>registerVideo\<close> stores a node or deletes the key, so no entry holds null.
\<close>

record app_base =
  videos :: "FeedVideo list"
  status :: status
  errorMessage :: "string option"
  unmutedVideoId :: "int option"
  currentIndex :: int
  videoRefs :: "(int \<times> element) list"

text \<open>
  The paginated variant adds the pagination cells and two ghost fields for the network:
  \<open>requests\<close> lists the pages for which \<open>fetch\<close> was called (newest last), \<open>inflight\<close> is
  the request held by \<open>fetchController.current\<close> that has not been answered, with its
  \<open>append\<close> flag.
\<close>

record pstate = app_base +
  page :: nat
  hasMore :: bool
  isLoadingMore :: bool
  requests :: "nat list"
  inflight :: "(nat \<times> bool) option"

definition initial_pstate :: pstate where
  "initial_pstate =
     \<lparr> videos = [], status = Idle, errorMessage = None, unmutedVideoId = None,
       currentIndex = 0, videoRefs = [], page = 1, hasMore = True, isLoadingMore = False,
       requests = [], inflight = None \<rparr>"

text \<open>
  The updater passed to \<open>setVideos\<close>: a full replace, or the previous list followed by
  the fetched items whose id is not in \<open>existingIds\<close>.
\<close>

definition setVideos_updater :: "bool \<Rightarrow> FeedVideo list \<Rightarrow> FeedVideo list \<Rightarrow> FeedVideo list" where
  "setVideos_updater append' formatted prev =
     (if \<not> append' then formatted
      else
        (let existingIds = set (map fv_id prev);
             uniqueNew = filter (\<lambda>video. fv_id video \<notin> existingIds) formatted
         in prev @ uniqueNew))"

text \<open>
  \<open>fetchVideos(pageToLoad, append)\<close> up to its \<open>await\<close>: the key check, the replacement
  of the controller, the loading flags, and the call of \<open>fetch\<close>.  The second component
  tells whether a request was issued.  A request that is still in flight is aborted by
  the new one and leaves \<open>inflight\<close>; the properties below start from states without one.
\<close>

definition fetchVideos_begin :: "string option \<Rightarrow> nat \<Rightarrow> bool \<Rightarrow> pstate \<Rightarrow> pstate \<times> bool" where
  "fetchVideos_begin env pageToLoad append' s =
     (if key_missing env then
        (s\<lparr> status := Error, errorMessage := Some ''Missing Pexels API key.'' \<rparr>, False)
      else
        (let s1 = (if \<not> append' then s\<lparr> status := Loading, errorMessage := None \<rparr>
                   else s\<lparr> isLoadingMore := True \<rparr>)
         in (s1\<lparr> requests := requests s1 @ [pageToLoad],
                  inflight := Some (pageToLoad, append') \<rparr>, True)))"

text \<open>Decimal rendering of a status code inside the template string.\<close>

definition digit_char :: "nat \<Rightarrow> char" where
  "digit_char d = char_of (48 + d)"

function show_nat :: "nat \<Rightarrow> string" where
  "show_nat n = (if n < 10 then [digit_char n] else show_nat (n div 10) @ [digit_char (n mod 10)])"
  by pat_completeness auto
termination
  by (relation "measure id") auto

declare show_nat.simps [simp del]

text \<open>The text of the error thrown for a response that is not \<open>ok\<close>.\<close>

definition notOk_message :: "nat \<Rightarrow> string \<Rightarrow> string" where
  "notOk_message code txt = ''Failed to fetch videos ('' @ show_nat code @ '' '' @ txt @ '')''"

text \<open>
  The rest of \<open>fetchVideos\<close>, run when the request answers: the \<open>try\<close> body on a body,
  the \<open>catch\<close> block on a thrown error, and the \<open>finally\<close> block.  The second component is
  the value the promise resolves to.  \<open>append'\<close> is the \<open>append\<close> flag of the call that is answered.
\<close>

definition fetch_error_message :: "fetch_result \<Rightarrow> string" where
  "fetch_error_message r =
     (case r of
        NotOk code txt \<Rightarrow> notOk_message code txt
      | Failed (Some m) \<Rightarrow> m
      | _ \<Rightarrow> ''Something went wrong.'')"

definition finally_block :: "bool \<Rightarrow> pstate \<Rightarrow> pstate" where
  "finally_block append' s = (if append' then s\<lparr> isLoadingMore := False \<rparr> else s)"

definition fetchVideos_end :: "bool \<Rightarrow> fetch_result \<Rightarrow> pstate \<Rightarrow> pstate \<times> bool" where
  "fetchVideos_end append' r s =
     (case r of
        Ok raw \<Rightarrow>
          (let formatted = formatted_of raw;
               s1 = s\<lparr> videos := setVideos_updater append' formatted (videos s) \<rparr>;
               s2 = s1\<lparr> hasMore := (length raw = PER_PAGE) \<rparr>;
               s3 = s2\<lparr> status := Success \<rparr>
           in (finally_block append' (s3\<lparr> inflight := None \<rparr>), True))
      | _ \<Rightarrow>
          (let s1 = (if \<not> append' \<and> r \<noteq> Aborted
                     then s\<lparr> errorMessage := Some (fetch_error_message r), status := Error \<rparr>
                     else s)
           in (finally_block append' (s1\<lparr> inflight := None \<rparr>), False)))"

text \<open>
  \<open>loadMore\<close>, in the same two halves: the guard and the call of \<open>fetchVideos(page + 1,
  true)\<close>, then the continuation after \<open>await\<close>, which advances \<open>page\<close> to the \<open>nextPage\<close>
  computed before the request when the call resolved to true.
\<close>

definition loadMore_begin :: "string option \<Rightarrow> pstate \<Rightarrow> pstate" where
  "loadMore_begin env s =
     (if \<not> hasMore s \<or> isLoadingMore s then s
      else
        (let nextPage = page s + 1;
             (s1, issued) = fetchVideos_begin env nextPage True s
         in s1))"

definition loadMore_end :: "nat \<Rightarrow> fetch_result \<Rightarrow> pstate \<Rightarrow> pstate" where
  "loadMore_end nextPage r s =
     (let (s1, loaded) = fetchVideos_end True r s
      in if loaded then s1\<lparr> page := nextPage \<rparr> else s1)"

text \<open>
  The lookahead effect (dependencies \<open>currentIndex\<close>, \<open>hasMore\<close>, \<open>isLoadingMore\<close>,
  \<open>loadMore\<close>, \<open>videos.length\<close>).
\<close>

definition lookahead_effect :: "string option \<Rightarrow> pstate \<Rightarrow> pstate" where
  "lookahead_effect env s =
     (if \<not> hasMore s \<or> isLoadingMore s \<or> length (videos s) = 0 then s
      else
        (let remaining = int (length (videos s)) - (currentIndex s + 1)
         in if remaining \<le> 4 then loadMore_begin env s else s))"

text \<open>
  React runs an effect after a commit in which one of its dependencies changed.  The
  dependencies of the lookahead effect are \<open>currentIndex\<close>, \<open>hasMore\<close>, \<open>isLoadingMore\<close>,
  \<open>loadMore\<close> (a \<open>useCallback\<close> over \<open>hasMore\<close>, \<open>isLoadingMore\<close> and \<open>page\<close>) and
  \<open>videos.length\<close>.  \<open>run_lookahead prev s\<close> commits \<open>s\<close> after \<open>prev\<close>: the effect runs if
  the dependencies differ, and once more if its own state updates changed them again.
\<close>

definition lookahead_deps :: "pstate \<Rightarrow> int \<times> bool \<times> bool \<times> nat \<times> nat" where
  "lookahead_deps s = (currentIndex s, hasMore s, isLoadingMore s, page s, length (videos s))"

definition run_lookahead :: "string option \<Rightarrow> pstate \<Rightarrow> pstate \<Rightarrow> pstate" where
  "run_lookahead env prev s =
     (if lookahead_deps s = lookahead_deps prev then s
      else
        (let s1 = lookahead_effect env s
         in if lookahead_deps s1 = lookahead_deps s then s1 else lookahead_effect env s1))"

text \<open>One forward index transition (\<open>setCurrentIndex(currentIndex + 1)\<close>) and its commit.\<close>

definition advance :: "string option \<Rightarrow> pstate \<Rightarrow> pstate" where
  "advance env s = run_lookahead env s (s\<lparr> currentIndex := currentIndex s + 1 \<rparr>)"

fun advanceN :: "string option \<Rightarrow> nat \<Rightarrow> pstate \<Rightarrow> pstate" where
  "advanceN env 0 s = s"
| "advanceN env (Suc n) s = advance env (advanceN env n s)"

text \<open>
  The answer to the request of \<open>loadMore\<close> and the commit that follows it (the effect
  runs again, since \<open>isLoadingMore\<close> changed).
\<close>

definition answer_loadMore :: "string option \<Rightarrow> nat \<Rightarrow> fetch_result \<Rightarrow> pstate \<Rightarrow> pstate" where
  "answer_loadMore env nextPage r s = run_lookahead env s (loadMore_end nextPage r s)"

section \<open>Audio and playback (all variants)\<close>

text \<open>
  \<open>Object.entries(videoRefs.current).forEach\<close> visits every entry once; the callbacks
  below update the visited element only, so the loop is a map over the entries.  The
  test \<open>if (!element) return\<close> never fires, since no entry holds null.
\<close>

text \<open>The effect with dependency \<open>unmutedVideoId\<close>.\<close>

definition muteEffect :: "'a app_base_scheme \<Rightarrow> 'a app_base_scheme" where
  "muteEffect s =
     s\<lparr> videoRefs :=
          map (\<lambda>(numericId, element).
                 (numericId,
                  element\<lparr> muted := (unmutedVideoId s = None \<or> Some numericId \<noteq> unmutedVideoId s) \<rparr>))
              (videoRefs s) \<rparr>"

text \<open>\<open>video.muted = b\<close> and \<open>video.play()\<close> on the element registered under \<open>id'\<close>.\<close>

definition update_element :: "int \<Rightarrow> (element \<Rightarrow> element) \<Rightarrow> (int \<times> element) list \<Rightarrow> (int \<times> element) list" where
  "update_element id' f refs = map (\<lambda>(videoId, element). (videoId, if videoId = id' then f element else element)) refs"

text \<open>\<open>handleVideoClick(id)\<close>, the audio toggle.\<close>

definition handleVideoClick :: "int \<Rightarrow> 'a app_base_scheme \<Rightarrow> 'a app_base_scheme" where
  "handleVideoClick id' s =
     (case map_of (videoRefs s) id' of
        None \<Rightarrow> s
      | Some video \<Rightarrow>
          (let isActive = (unmutedVideoId s = Some id')
           in if isActive then
                s\<lparr> videoRefs := update_element id' (\<lambda>e. e\<lparr> muted := True \<rparr>) (videoRefs s),
                   unmutedVideoId := None \<rparr>
              else
                (let refs1 = map (\<lambda>(videoId, element). (videoId, element\<lparr> muted := (videoId \<noteq> id') \<rparr>))
                               (videoRefs s);
                     refs2 = update_element id' (\<lambda>e. e\<lparr> muted := False \<rparr>) refs1;
                     refs3 = update_element id' (\<lambda>e. e\<lparr> playing := True \<rparr>) refs2
                 in s\<lparr> videoRefs := refs3, unmutedVideoId := Some id' \<rparr>)))"

text \<open>\<open>Array.prototype.findIndex\<close>: the first index satisfying the predicate, or \<open>-1\<close>.\<close>

fun findIndex :: "('a \<Rightarrow> bool) \<Rightarrow> 'a list \<Rightarrow> int" where
  "findIndex p [] = - 1"
| "findIndex p (x # xs) =
     (if p x then 0 else (let r = findIndex p xs in if r < 0 then - 1 else r + 1))"

text \<open>
  The play/pause effect of the gesture variant (dependencies \<open>currentIndex\<close>, \<open>videos\<close>,
  \<open>unmutedVideoId\<close>).  The values it reads are those of the render, so the call of
  \<open>setUnmutedVideoId(null)\<close> inside the loop does not change what later iterations see.
\<close>

definition isActive_entry :: "'a app_base_scheme \<Rightarrow> int \<Rightarrow> bool" where
  "isActive_entry s videoId =
     (let videoIndex = findIndex (\<lambda>v. fv_id v = videoId) (videos s)
      in videoIndex = currentIndex s)"

definition playPause_entry :: "'a app_base_scheme \<Rightarrow> int \<times> element \<Rightarrow> int \<times> element" where
  "playPause_entry s = (\<lambda>(videoId, element).
     if isActive_entry s videoId then (videoId, element\<lparr> playing := True \<rparr>)
     else
       (let e1 = element\<lparr> playing := False \<rparr>;
            e2 = e1\<lparr> currentTime := 0 \<rparr>
        in if unmutedVideoId s = Some videoId then (videoId, e2\<lparr> muted := True \<rparr>)
           else (videoId, e2)))"

definition playPauseEffect :: "'a app_base_scheme \<Rightarrow> 'a app_base_scheme" where
  "playPauseEffect s =
     (if length (videos s) = 0 then s
      else
        s\<lparr> videoRefs := map (playPause_entry s) (videoRefs s),
           unmutedVideoId :=
             (if list_ex (\<lambda>(videoId, element).
                    \<not> isActive_entry s videoId \<and> unmutedVideoId s = Some videoId) (videoRefs s)
              then None else unmutedVideoId s) \<rparr>)"

section \<open>The gesture variant (\<open>snapToIndex\<close>, wheel and touch handlers)\<close>

text \<open>
  The inline style of a feed card as the handlers write it: \<open>transform\<close> is the empty
  string or \<open>translateY(<t>px) scale(1)\<close>; \<open>transition\<close> is the empty string, \<open>none\<close>, or
  \<open>transform 250ms cubic-bezier(0.16, 1, 0.3, 1)\<close>.
\<close>

datatype transform = NoTransform | TranslateY real

datatype transition = NoTransition | TransitionNone | Transition250

record card =
  transform :: transform
  transition :: transition

definition fresh_card :: card where
  "fresh_card = \<lparr> transform = NoTransform, transition = NoTransition \<rparr>"

text \<open>\<open>scrollState.current\<close> (its field \<open>animationFrame\<close> is never read or written).\<close>

record scroll_state =
  isScrolling :: bool
  isDragging :: bool
  startY :: real
  currentY :: real
  lastScrollTime :: real
  accumulatedDelta :: real
  targetIndex :: int

text \<open>
  The gesture variant adds the DOM it reaches through \<open>feedRef\<close> (whether the ref is
  set, and the \<open>[data-feed-card]\<close> elements in document order), the scroll state, and
  ghost fields for what is pending: the idle timer \<open>wheelTimeout\<close>, the delays of the
  \<open>window.setTimeout\<close> callbacks scheduled by \<open>snapToIndex\<close>, the last
  \<open>scrollIntoView\<close> (card position and \<open>immediate\<close>), and whether the request of the mount
  effect is still unanswered.

  The numbers of the handlers are IEEE doubles.  A finite double is a real number, and
  an arithmetic operation of the code returns the rounding of the exact result; a
  decimal literal such as \<open>0.01\<close> denotes the double nearest to it.  The rounding is the
  field \<open>fl\<close>, fixed when the component mounts and never written; comparisons,
  \<open>Math.abs\<close>, \<open>Math.max\<close>, \<open>Math.min\<close> and the unary minus are exact on doubles.  Nothing
  is assumed of \<open>fl\<close>: what is proved below holds for every rounding, that of the browser
  included (overflow to an infinity and \<open>NaN\<close> are left out).
\<close>

record gstate = app_base +
  feedRef :: bool
  cards :: "card list"
  scrollState :: scroll_state
  wheelTimeout :: bool
  snapTimeouts :: "nat list"
  scrolledTo :: "(nat \<times> bool) option"
  fetchPending :: bool
  fl :: "real \<Rightarrow> real"

text \<open>\<open>getCardByIndex(index)\<close>: the position of the card, or null.\<close>

definition getCardByIndex :: "'a gstate_scheme \<Rightarrow> int \<Rightarrow> nat option" where
  "getCardByIndex s index =
     (if \<not> feedRef s then None
      else if 0 \<le> index \<and> index < int (length (cards s)) then Some (nat index)
      else None)"

definition set_style :: "nat \<Rightarrow> transform \<Rightarrow> transition \<Rightarrow> 'a gstate_scheme \<Rightarrow> 'a gstate_scheme" where
  "set_style c tf tr s = s\<lparr> cards := (cards s)[c := \<lparr> transform = tf, transition = tr \<rparr>] \<rparr>"

text \<open>\<open>snapToIndex(targetIndex, immediate)\<close>.\<close>

definition snapToIndex :: "int \<Rightarrow> bool \<Rightarrow> 'a gstate_scheme \<Rightarrow> 'a gstate_scheme" where
  "snapToIndex target immediate s =
     (let clampedIndex = max 0 (min target (int (length (videos s)) - 1))
      in if clampedIndex = currentIndex s \<and> \<not> immediate then s
         else
           (case getCardByIndex s clampedIndex of
              None \<Rightarrow> s
            | Some targetCard \<Rightarrow>
                (let s1 = s\<lparr> scrollState := (scrollState s)\<lparr> isScrolling := True,
                              targetIndex := clampedIndex, accumulatedDelta := 0 \<rparr> \<rparr>;
                     s2 = (case getCardByIndex s1 (currentIndex s1) of
                             None \<Rightarrow> s1
                           | Some currentCard \<Rightarrow> set_style currentCard NoTransform NoTransition s1);
                     s3 = s2\<lparr> scrolledTo := Some (targetCard, immediate) \<rparr>;
                     s4 = s3\<lparr> currentIndex := clampedIndex \<rparr>
                 in s4\<lparr> snapTimeouts := snapTimeouts s4 @ [if immediate then 0 else 500] \<rparr>)))"

text \<open>
  A callback scheduled by \<open>snapToIndex\<close> runs; the argument is the delay it was
  scheduled with.  Every such callback is the same function.
\<close>

definition snapTimeout_fire :: "nat \<Rightarrow> 'a gstate_scheme \<Rightarrow> 'a gstate_scheme" where
  "snapTimeout_fire d s =
     (if d \<notin> set (snapTimeouts s) then s
      else s\<lparr> scrollState := (scrollState s)\<lparr> isScrolling := False \<rparr>,
             snapTimeouts := remove1 d (snapTimeouts s) \<rparr>)"

text \<open>
  \<open>handleWheel(event)\<close>, with \<open>event.deltaY\<close>, \<open>Date.now()\<close> and \<open>feedEl.clientHeight\<close> as
  arguments.
\<close>

definition handleWheel :: "real \<Rightarrow> real \<Rightarrow> real \<Rightarrow> 'a gstate_scheme \<Rightarrow> 'a gstate_scheme" where
  "handleWheel deltaY now cardHeight s =
     (if isScrolling (scrollState s) then s
      else
        (let s1 = s\<lparr> scrollState := (scrollState s)\<lparr> lastScrollTime := now \<rparr> \<rparr>;
             s2 = s1\<lparr> scrollState := (scrollState s1)\<lparr> accumulatedDelta :=
                        fl s (accumulatedDelta (scrollState s1) + deltaY) \<rparr> \<rparr>;
             threshold = fl s (cardHeight * fl s (1 / 100));
             s3 =
               (if \<bar>accumulatedDelta (scrollState s2)\<bar> \<ge> threshold then
                  (let direction = (if accumulatedDelta (scrollState s2) > 0 then 1 else - 1);
                       nextIndex = currentIndex s2 + direction
                   in if nextIndex \<ge> 0 \<and> nextIndex < int (length (videos s2)) then
                        (let s' = snapToIndex nextIndex False s2
                         in s'\<lparr> scrollState := (scrollState s')\<lparr> accumulatedDelta := 0 \<rparr> \<rparr>)
                      else
                        (case getCardByIndex s2 (currentIndex s2) of
                           None \<Rightarrow> s2
                         | Some currentCard \<Rightarrow>
                             (let resistance = fl s (12 / 100);
                                  translateY = fl s (- accumulatedDelta (scrollState s2) * resistance);
                                  clampedTranslate = max (- 50) (min 50 translateY)
                              in set_style currentCard (TranslateY clampedTranslate) TransitionNone s2)))
                else
                  (let resistance = fl s (5 / 10);
                       translateY = fl s (- accumulatedDelta (scrollState s2) * resistance)
                   in case getCardByIndex s2 (currentIndex s2) of
                        None \<Rightarrow> s2
                      | Some currentCard \<Rightarrow> set_style currentCard (TranslateY translateY) TransitionNone s2))
         in s3\<lparr> wheelTimeout := True \<rparr>))"

text \<open>The callback of \<open>wheelTimeout\<close>, 150 ms after the last wheel event.\<close>

definition wheelTimeout_fire :: "'a gstate_scheme \<Rightarrow> 'a gstate_scheme" where
  "wheelTimeout_fire s =
     (if \<not> wheelTimeout s then s
      else
        (let s1 = (case getCardByIndex s (currentIndex s) of
                     None \<Rightarrow> s
                   | Some currentCard \<Rightarrow>
                       if \<not> isScrolling (scrollState s)
                       then set_style currentCard NoTransform Transition250 s else s);
             s2 = s1\<lparr> scrollState := (scrollState s1)\<lparr> accumulatedDelta := 0 \<rparr> \<rparr>
         in s2\<lparr> wheelTimeout := False \<rparr>))"

text \<open>The touch handlers; the argument is \<open>event.touches[0]?.clientY ?? 0\<close>.\<close>

definition handleTouchStart :: "real \<Rightarrow> 'a gstate_scheme \<Rightarrow> 'a gstate_scheme" where
  "handleTouchStart clientY s =
     (if isScrolling (scrollState s) then s
      else
        s\<lparr> scrollState := (scrollState s)\<lparr> isDragging := True, startY := clientY,
                                         currentY := clientY \<rparr> \<rparr>)"

definition handleTouchMove :: "real \<Rightarrow> 'a gstate_scheme \<Rightarrow> 'a gstate_scheme" where
  "handleTouchMove touchY s =
     (if \<not> isDragging (scrollState s) \<or> isScrolling (scrollState s) then s
      else
        (let deltaY = fl s (startY (scrollState s) - touchY);
             s1 = s\<lparr> scrollState := (scrollState s)\<lparr> currentY := touchY \<rparr> \<rparr>;
             isAtTop = (currentIndex s1 = 0 \<and> deltaY < 0);
             isAtBottom = (currentIndex s1 = int (length (videos s1)) - 1 \<and> deltaY > 0);
             resistance = (if isAtTop \<or> isAtBottom then fl s (12 / 100) else fl s (5 / 10));
             translateY = fl s (- deltaY * resistance);
             clampedTranslate = (if isAtTop \<or> isAtBottom then max (- 50) (min 50 translateY)
                                 else translateY)
         in case getCardByIndex s1 (currentIndex s1) of
              None \<Rightarrow> s1
            | Some currentCard \<Rightarrow> set_style currentCard (TranslateY clampedTranslate) TransitionNone s1))"

definition handleTouchEnd :: "real \<Rightarrow> 'a gstate_scheme \<Rightarrow> 'a gstate_scheme" where
  "handleTouchEnd cardHeight s =
     (if \<not> isDragging (scrollState s) then s
      else
        (let deltaY = fl s (startY (scrollState s) - currentY (scrollState s));
             threshold = fl s (cardHeight * fl s (25 / 100));
             currentCard = getCardByIndex s (currentIndex s);
             bounce = (\<lambda>t. case currentCard of
                               None \<Rightarrow> t
                             | Some c \<Rightarrow> set_style c NoTransform Transition250 t);
             s1 =
               (if \<bar>deltaY\<bar> \<ge> threshold then
                  (let direction = (if deltaY > 0 then 1 else - 1);
                       nextIndex = currentIndex s + direction
                   in if nextIndex \<ge> 0 \<and> nextIndex < int (length (videos s)) then
                        snapToIndex nextIndex False s
                      else bounce s)
                else bounce s)
         in s1\<lparr> scrollState := (scrollState s1)\<lparr> isDragging := False, startY := 0,
                                           currentY := 0 \<rparr> \<rparr>))"

subsection \<open>The component as a transition system\<close>

text \<open>
  The mount effect of the gesture variant: the key check and the request, then the
  answer.  It runs once (its dependency list is empty).  The component mounts on a
  platform with rounding \<open>rnd\<close>; \<open>exact\<close> is the rounding that leaves every number as it
  is, which agrees with that of the browser wherever the exact result is a double.
\<close>

definition exact :: "real \<Rightarrow> real" where
  "exact x = x"

definition idle_scroll :: scroll_state where
  "idle_scroll =
     \<lparr> isScrolling = False, isDragging = False, startY = 0, currentY = 0,
       lastScrollTime = 0, accumulatedDelta = 0, targetIndex = 0 \<rparr>"

definition initial_gstate :: "(real \<Rightarrow> real) \<Rightarrow> gstate" where
  "initial_gstate rnd =
     \<lparr> videos = [], status = Idle, errorMessage = None, unmutedVideoId = None,
       currentIndex = 0, videoRefs = [], feedRef = True, cards = [],
       scrollState = idle_scroll, wheelTimeout = False, snapTimeouts = [],
       scrolledTo = None, fetchPending = False, fl = rnd \<rparr>"

definition mount :: "(real \<Rightarrow> real) \<Rightarrow> string option \<Rightarrow> gstate" where
  "mount rnd env =
     (if key_missing env then
        initial_gstate rnd\<lparr> status := Error, errorMessage := Some ''Missing Pexels API key.'' \<rparr>
      else initial_gstate rnd\<lparr> status := Loading, errorMessage := None, fetchPending := True \<rparr>)"

definition fetch_answer :: "fetch_result \<Rightarrow> 'a gstate_scheme \<Rightarrow> 'a gstate_scheme" where
  "fetch_answer r s =
     (if \<not> fetchPending s then s
      else
        (case r of
           Ok raw \<Rightarrow> s\<lparr> videos := formatted_of raw, status := Success, fetchPending := False \<rparr>
         | Aborted \<Rightarrow> s\<lparr> fetchPending := False \<rparr>
         | _ \<Rightarrow> s\<lparr> errorMessage := Some (fetch_error_message r), status := Error,
                    fetchPending := False \<rparr>))"

text \<open>
  What React does when it commits a render: the JSX has one card and one \<open><video>\<close>
  per item of \<open>videos\<close>, and the ref callback made by \<open>registerVideo\<close> stores each mounted
  element under its id and deletes the ids that left the list.  Elements and cards of
  ids that stay are kept.  (The list is only ever replaced from the empty list here.)
\<close>

definition render_refs :: "FeedVideo list \<Rightarrow> (int \<times> element) list \<Rightarrow> (int \<times> element) list" where
  "render_refs vs refs =
     map (\<lambda>k. (k, case map_of refs k of Some e \<Rightarrow> e | None \<Rightarrow> fresh_element))
         (remdups (map fv_id vs))"

definition render_cards :: "FeedVideo list \<Rightarrow> card list \<Rightarrow> card list" where
  "render_cards vs cs = take (length vs) cs @ replicate (length vs - length cs) fresh_card"

text \<open>
  The events of the component: the answer to the request, a wheel event (\<open>deltaY\<close>,
  \<open>Date.now()\<close>, \<open>clientHeight\<close>), the idle timer, the touch events (\<open>clientY\<close>, and
  \<open>clientHeight\<close> for the release), a snap timer with its delay, and a click on the video
  or audio button of an item.  The wheel and touch listeners are attached only when the
  feed element exists and \<open>videos\<close> is not empty.
\<close>

datatype event =
    FetchAnswer fetch_result
  | Wheel real real real
  | WheelIdle
  | TouchStart real
  | TouchMove real
  | TouchEnd real
  | SnapTimer nat
  | Click int

definition listening :: "'a gstate_scheme \<Rightarrow> bool" where
  "listening s = (feedRef s \<and> length (videos s) \<noteq> 0)"

fun handle_event :: "event \<Rightarrow> 'a gstate_scheme \<Rightarrow> 'a gstate_scheme" where
  "handle_event (FetchAnswer r) s = fetch_answer r s"
| "handle_event (Wheel deltaY now cardHeight) s =
     (if listening s then handleWheel deltaY now cardHeight s else s)"
| "handle_event WheelIdle s = wheelTimeout_fire s"
| "handle_event (TouchStart y) s = (if listening s then handleTouchStart y s else s)"
| "handle_event (TouchMove y) s = (if listening s then handleTouchMove y s else s)"
| "handle_event (TouchEnd cardHeight) s = (if listening s then handleTouchEnd cardHeight s else s)"
| "handle_event (SnapTimer d) s = snapTimeout_fire d s"
| "handle_event (Click k) s = handleVideoClick k s"

text \<open>
  One commit: \<open>prev\<close> is the state of the previous render, \<open>s\<close> the state being rendered.
  The DOM follows \<open>videos\<close>; then the effects whose dependencies changed run in the order
  of their declaration: the mute effect (\<open>unmutedVideoId\<close>), the play/pause effect
  (\<open>currentIndex\<close>, \<open>videos\<close>, \<open>unmutedVideoId\<close>), the clean-up of the wheel effect, which
  clears the idle timer (\<open>videos\<close>, \<open>currentIndex\<close>, \<open>snapToIndex\<close>), and the effect that
  snaps to the first card (\<open>videos.length\<close>, \<open>snapToIndex\<close>, \<open>currentIndex\<close>).  No effect
  reads a cell that an earlier effect of the same commit has set.
\<close>

definition run_effects :: "bool \<Rightarrow> bool \<Rightarrow> bool \<Rightarrow> 'a gstate_scheme \<Rightarrow> 'a gstate_scheme" where
  "run_effects videosChanged unmutedChanged indexChanged s0 =
     (let s1 = (if unmutedChanged then muteEffect s0 else s0);
          s2 = (if indexChanged \<or> videosChanged \<or> unmutedChanged then playPauseEffect s1 else s1);
          s3 = (if videosChanged \<or> indexChanged then s2\<lparr> wheelTimeout := False \<rparr> else s2);
          s4 = (if videosChanged \<or> indexChanged
                then (if length (videos s3) > 0 \<and> currentIndex s3 = 0
                      then snapToIndex 0 True s3 else s3)
                else s3)
      in s4)"

definition commit :: "'a gstate_scheme \<Rightarrow> 'a gstate_scheme \<Rightarrow> 'a gstate_scheme" where
  "commit prev s =
     (let videosChanged = (videos s \<noteq> videos prev);
          unmutedChanged = (unmutedVideoId s \<noteq> unmutedVideoId prev);
          indexChanged = (currentIndex s \<noteq> currentIndex prev);
          s0 = (if videosChanged
                then s\<lparr> videoRefs := render_refs (videos s) (videoRefs s),
                        cards := render_cards (videos s) (cards s) \<rparr>
                else s)
      in run_effects videosChanged unmutedChanged indexChanged s0)"

text \<open>
  An event is followed by the commit of the state its handler left, and by a second
  commit for the state updates the effects of the first one made.
\<close>

definition settle :: "'a gstate_scheme \<Rightarrow> 'a gstate_scheme \<Rightarrow> 'a gstate_scheme" where
  "settle prev s = (let s1 = commit prev s in commit s s1)"

definition step :: "event \<Rightarrow> 'a gstate_scheme \<Rightarrow> 'a gstate_scheme" where
  "step e s = settle s (handle_event e s)"

fun run :: "event list \<Rightarrow> 'a gstate_scheme \<Rightarrow> 'a gstate_scheme" where
  "run [] s = s"
| "run (e # es) s = run es (step e s)"


inductive reachable :: "gstate \<Rightarrow> bool" where
  mounted: "reachable (mount rnd env)"
| stepped: "reachable s \<Longrightarrow> reachable (step e s)"

text \<open>The ids of the registered elements that are playing.\<close>

definition playing_ids :: "'a app_base_scheme \<Rightarrow> int list" where
  "playing_ids s = map fst (filter (\<lambda>(k, e). playing e) (videoRefs s))"

subsection \<open>Invariants of the transition system\<close>

text \<open>
  The registry holds one element per id of the list; the feed is mounted with one card
  per item; the index is in range; a playing element is the active one; an unmuted
  element is the one named by \<open>unmutedVideoId\<close>; and that id is registered and active.
\<close>

definition refs_ok :: "'a gstate_scheme \<Rightarrow> bool" where
  "refs_ok s =
     (distinct (map fst (videoRefs s)) \<and> set (map fst (videoRefs s)) = fv_id ` set (videos s))"

definition dom_ok :: "'a gstate_scheme \<Rightarrow> bool" where
  "dom_ok s = (feedRef s \<and> length (cards s) = length (videos s))"

definition idx_ok :: "'a gstate_scheme \<Rightarrow> bool" where
  "idx_ok s =
     (0 \<le> currentIndex s
      \<and> (videos s \<noteq> [] \<longrightarrow> currentIndex s < int (length (videos s)))
      \<and> (videos s = [] \<longrightarrow> currentIndex s = 0 \<and> unmutedVideoId s = None)
      \<and> (fetchPending s \<longrightarrow> videos s = []))"

definition mute_ok :: "'a gstate_scheme \<Rightarrow> bool" where
  "mute_ok s = list_all (\<lambda>(k, e). \<not> muted e \<longrightarrow> unmutedVideoId s = Some k) (videoRefs s)"

definition unm_reg :: "'a gstate_scheme \<Rightarrow> bool" where
  "unm_reg s = (case unmutedVideoId s of None \<Rightarrow> True | Some k \<Rightarrow> k \<in> set (map fst (videoRefs s)))"

definition play_ok :: "'a gstate_scheme \<Rightarrow> bool" where
  "play_ok s = list_all (\<lambda>(k, e). playing e \<longrightarrow> isActive_entry s k) (videoRefs s)"

definition unm_ok :: "'a gstate_scheme \<Rightarrow> bool" where
  "unm_ok s = (case unmutedVideoId s of None \<Rightarrow> True | Some k \<Rightarrow> isActive_entry s k)"

definition pre_ok :: "'a gstate_scheme \<Rightarrow> bool" where
  "pre_ok s = (refs_ok s \<and> dom_ok s \<and> idx_ok s \<and> mute_ok s \<and> unm_reg s)"

definition inv :: "'a gstate_scheme \<Rightarrow> bool" where
  "inv s = (pre_ok s \<and> play_ok s \<and> unm_ok s)"


text \<open>The part of the state the invariants read.\<close>

definition core :: "'a gstate_scheme \<Rightarrow> FeedVideo list \<times> int \<times> int option \<times> (int \<times> element) list \<times> bool \<times> nat \<times> bool" where
  "core s = (videos s, currentIndex s, unmutedVideoId s, videoRefs s, feedRef s,
             length (cards s), fetchPending s)"

text \<open>The same without the index.\<close>

definition rest :: "'a gstate_scheme \<Rightarrow> FeedVideo list \<times> int option \<times> (int \<times> element) list \<times> bool \<times> nat \<times> bool" where
  "rest s = (videos s, unmutedVideoId s, videoRefs s, feedRef s, length (cards s), fetchPending s)"

subsection \<open>Sample inputs\<close>

definition sample_video :: "int \<Rightarrow> FeedVideo" where
  "sample_video n =
     \<lparr> fv_id = n, src = ''a.mp4'', previewImage = ''a.jpg'', duration = 1,
       photographer = ''p'', photographerUrl = ''u'' \<rparr>"

definition sample_raw :: "int \<Rightarrow> string \<Rightarrow> PexelsVideo" where
  "sample_raw n ft =
     \<lparr> pv_id = n, pv_duration = 10, pv_image = ''i.jpg'', pv_user = None,
       video_files =
         [\<lparr> file_id = 1, quality = ''hd'', file_type = ft, width = 1, height = 1,
            link = ''l'' \<rparr>] \<rparr>"

text \<open>The feed after a first page of twelve usable records.\<close>

definition loaded12 :: pstate where
  "loaded12 = initial_pstate\<lparr> videos := map sample_video [1..12], status := Success \<rparr>"

text \<open>
  The sessions below start from \<open>mount exact None\<close>.  Their offsets, deltas and heights
  are chosen so that the doubles of the browser give the results of the exact
  arithmetic: the sums and differences are integers, and the thresholds
  \<open>800 * 0.01\<close>, \<open>100 * 0.01\<close> and \<open>800 * 0.25\<close> and the transform \<open>-400 * 0.12\<close> round to
  8, 1, 200 and -48.

  A session of the gesture variant: three usable records arrive, the first snap timer
  runs, the user unmutes the first video, and a wheel event commits a forward snap.
\<close>

definition three_raw :: "PexelsVideo list" where
  "three_raw = map (\<lambda>n. sample_raw n ''video/mp4'') [1..3]"

definition trace_click :: "event list" where
  "trace_click = [FetchAnswer (Ok three_raw), SnapTimer 0, Click 1]"

definition trace_scroll :: "event list" where
  "trace_scroll = trace_click @ [Wheel 100 0 800]"

text \<open>A feed of one item, at rest and in the middle of an upward drag of 400 pixels.\<close>

definition one_raw :: "PexelsVideo list" where
  "one_raw = [sample_raw 1 ''video/mp4'']"

definition trace_one :: "event list" where
  "trace_one = [FetchAnswer (Ok one_raw), SnapTimer 0]"

definition trace_drag :: "event list" where
  "trace_drag = trace_one @ [TouchStart 500, TouchMove 100]"






section \<open>Properties of the paginated variant\<close>

subsection \<open>Appending a page\<close>

lemma updater_ids:
  "fv_id ` set (setVideos_updater True formatted prev) = fv_id ` set prev \<union> fv_id ` set formatted"
  by (auto simp: setVideos_updater_def Let_def)

lemma updater_distinct:
  "distinct (map fv_id prev) \<Longrightarrow> distinct (map fv_id formatted) \<Longrightarrow>
   distinct (map fv_id (setVideos_updater True formatted prev))"
  by (auto simp: setVideos_updater_def Let_def distinct_map_filter image_iff)


text \<open>
  C5, as stated, fails: the updater removes only the fetched items whose id is already
  in the loaded list.  A page that carries the same new id twice is appended with both
  copies, although the loaded list had no duplicate.
\<close>

theorem append_page_duplicates_counterexample:
  "distinct (map fv_id [sample_video 1]) \<and>
   \<not> distinct (map fv_id
        (setVideos_updater True [sample_video 2, sample_video 2] [sample_video 1]))"
  by (simp add: setVideos_updater_def sample_video_def)

text \<open>
  C5 (amended).  Appending a page yields the previously loaded items in their order,
  followed by exactly the fetched items whose id does not occur among them, in response
  order; the list never shrinks, every fetched id is present afterwards, and when
  neither the loaded list nor the fetched page repeats an id, the result repeats none.
\<close>

theorem append_page_dedup:
  "setVideos_updater True formatted prev =
     prev @ filter (\<lambda>v. \<not> (\<exists>u \<in> set prev. fv_id v = fv_id u)) formatted
   \<and> take (length prev) (setVideos_updater True formatted prev) = prev
   \<and> length prev \<le> length (setVideos_updater True formatted prev)
   \<and> fv_id ` set (setVideos_updater True formatted prev) = fv_id ` set prev \<union> fv_id ` set formatted
   \<and> (distinct (map fv_id prev) \<and> distinct (map fv_id formatted) \<longrightarrow>
        distinct (map fv_id (setVideos_updater True formatted prev)))"
proof -
  have eq: "setVideos_updater True formatted prev =
     prev @ filter (\<lambda>v. \<not> (\<exists>u \<in> set prev. fv_id v = fv_id u)) formatted"
    unfolding setVideos_updater_def Let_def by (simp add: image_iff)
  have tk: "take (length prev) (setVideos_updater True formatted prev) = prev"
    by (simp add: eq)
  have ln: "length prev \<le> length (setVideos_updater True formatted prev)"
    by (simp add: eq)
  show ?thesis using eq tk ln updater_ids updater_distinct by blast
qed

theorem append_page_dedup_witness:
  "distinct (map fv_id [sample_video 1, sample_video 2])
   \<and> distinct (map fv_id [sample_video 2, sample_video 3])
   \<and> setVideos_updater True [sample_video 2, sample_video 3] [sample_video 1, sample_video 2] =
       [sample_video 1, sample_video 2, sample_video 3]
   \<and> distinct (map fv_id
        (setVideos_updater True [sample_video 2, sample_video 3] [sample_video 1, sample_video 2]))"
  using append_page_dedup [of "[sample_video 2, sample_video 3]" "[sample_video 1, sample_video 2]"]
  by (simp add: sample_video_def)

subsection \<open>\<open>hasMore\<close> and failed append requests\<close>

lemma hasMore_after_ok:
  "hasMore (fst (fetchVideos_end a (Ok raw) s)) = (length raw = PER_PAGE)"
  by (simp add: fetchVideos_end_def finally_block_def Let_def)

lemma videos_after_ok:
  "videos (fst (fetchVideos_end a (Ok raw) s)) = setVideos_updater a (formatted_of raw) (videos s)"
  by (simp add: fetchVideos_end_def finally_block_def Let_def)

lemma failed_append:
  assumes "\<forall>raw. r \<noteq> Ok raw"
  shows "loadMore_end np r s = s\<lparr> isLoadingMore := False, inflight := None \<rparr>"
  using assms
  by (cases r) (simp_all add: loadMore_end_def fetchVideos_end_def finally_block_def Let_def)

text \<open>
  C6.  The request asks for \<open>per_page = PER_PAGE\<close> records, so a page holds at most
  \<open>PER_PAGE\<close> of them.  After a successful fetch of such a page \<open>hasMore\<close> is false exactly
  when the page returned fewer than \<open>PER_PAGE\<close> records (the flag is the comparison
  \<open>data.videos.length === PER_PAGE\<close>: it is false exactly when the count differs from
  \<open>PER_PAGE\<close>).  After a failed append request the loaded list, the status, the error
  message, \<open>page\<close> and \<open>hasMore\<close> are as before the request (\<open>hasMore\<close> is still true),
  \<open>isLoadingMore\<close> is false again, and \<open>loadMore\<close> issues the request for the same page
  again.
\<close>

theorem hasMore_after_fetch:
  "(hasMore (fst (fetchVideos_end a (Ok raw) s)) = False \<longleftrightarrow> length raw \<noteq> PER_PAGE)
   \<and> (length raw \<le> PER_PAGE \<longrightarrow>
        (hasMore (fst (fetchVideos_end a (Ok raw) s)) = False \<longleftrightarrow> length raw < PER_PAGE))
   \<and> ((\<forall>raw'. r \<noteq> Ok raw') \<and> hasMore s \<and> \<not> isLoadingMore s \<and> \<not> key_missing env \<longrightarrow>
        (let s' = loadMore_end (page s + 1) r (loadMore_begin env s)
         in videos s' = videos s \<and> status s' = status s \<and> errorMessage s' = errorMessage s
            \<and> page s' = page s \<and> hasMore s' = True \<and> isLoadingMore s' = False
            \<and> requests (loadMore_begin env s') = requests s @ [page s + 1, page s + 1]))"
  using hasMore_after_ok [of a raw s] failed_append [of r]
  by (auto simp: Let_def loadMore_begin_def fetchVideos_begin_def)

theorem hasMore_after_fetch_witness:
  "length (map (\<lambda>n. sample_raw n ''video/mp4'') [1..7]) \<le> PER_PAGE
   \<and> hasMore (fst (fetchVideos_end True
         (Ok (map (\<lambda>n. sample_raw n ''video/mp4'') [1..7])) loaded12)) = False
   \<and> (\<forall>raw'. Failed None \<noteq> Ok raw') \<and> hasMore loaded12 \<and> \<not> isLoadingMore loaded12
   \<and> \<not> key_missing None
   \<and> videos (loadMore_end (page loaded12 + 1) (Failed None) (loadMore_begin None loaded12)) =
       videos loaded12
   \<and> hasMore (loadMore_end (page loaded12 + 1) (Failed None) (loadMore_begin None loaded12)) = True
   \<and> page (loadMore_end (page loaded12 + 1) (Failed None) (loadMore_begin None loaded12)) =
       page loaded12"
proof -
  have h1: "length (map (\<lambda>n. sample_raw n ''video/mp4'') [1..7]) \<le> PER_PAGE"
    by (simp add: PER_PAGE_def)
  have h1': "length (map (\<lambda>n. sample_raw n ''video/mp4'') [1..7]) < PER_PAGE"
    by (simp add: PER_PAGE_def)
  have h2: "\<forall>raw'. Failed None \<noteq> Ok raw'" by simp
  have h3: "hasMore loaded12" "\<not> isLoadingMore loaded12"
    by (simp_all add: loaded12_def initial_pstate_def)
  have h4: "\<not> key_missing None"
    by (simp add: key_missing_def API_KEY_def DEFAULT_KEY_def)
  show ?thesis
    using hasMore_after_fetch [of True "map (\<lambda>n. sample_raw n ''video/mp4'') [1..7]" loaded12
        "Failed None" None] h1 h1' h2 h3 h4
    unfolding Let_def by blast
qed

subsection \<open>Record count versus usable items\<close>






subsection \<open>The API key\<close>

text \<open>
  C9, as stated, fails: when the environment variable is absent, \<open>API_KEY\<close> is the
  literal written in the source, the guard \<open>!API_KEY\<close> does not fire, and the first load
  issues the request for page 1 instead of entering the error state.
\<close>

theorem absent_key_counterexample:
  "\<not> (status (fst (fetchVideos_begin None 1 False initial_pstate)) = Error
       \<and> requests (fst (fetchVideos_begin None 1 False initial_pstate)) = [])"
  by (simp add: key_missing_def API_KEY_def DEFAULT_KEY_def fetchVideos_begin_def
      initial_pstate_def)

text \<open>
  C9 (amended).  The key counts as missing exactly when the environment variable is set
  to the empty string.  In that case the initial load sets the status to error with the
  message \<open>Missing Pexels API key.\<close>, issues no request, leaves the list empty, and
  neither the lookahead effect nor \<open>loadMore\<close> issues a request afterwards.  When the
  variable is absent the literal key is used and the request for page 1 is issued.
\<close>

theorem missing_api_key:
  "(key_missing env \<longleftrightarrow> env = Some [])
   \<and> (env = Some [] \<longrightarrow>
        (let (s', issued) = fetchVideos_begin env 1 False initial_pstate
         in status s' = Error \<and> errorMessage s' = Some ''Missing Pexels API key.''
            \<and> \<not> issued \<and> requests s' = [] \<and> inflight s' = None \<and> videos s' = []
            \<and> lookahead_effect env s' = s' \<and> requests (loadMore_begin env s') = []))
   \<and> (env = None \<longrightarrow>
        (let (s', issued) = fetchVideos_begin env 1 False initial_pstate
         in status s' = Loading \<and> errorMessage s' = None \<and> issued \<and> requests s' = [1]))"
  by (cases env) (auto simp: key_missing_def API_KEY_def DEFAULT_KEY_def fetchVideos_begin_def
      initial_pstate_def lookahead_effect_def loadMore_begin_def Let_def)

theorem missing_api_key_witness:
  "key_missing (Some [])
   \<and> status (fst (fetchVideos_begin (Some []) 1 False initial_pstate)) = Error
   \<and> requests (fst (fetchVideos_begin (Some []) 1 False initial_pstate)) = []
   \<and> requests (fst (fetchVideos_begin None 1 False initial_pstate)) = [1]"
  using missing_api_key [of "Some []"] missing_api_key [of None]
  by (simp add: Let_def split: prod.splits)

subsection \<open>The lookahead trigger\<close>

lemma adv_idle:
  assumes "length (videos s) = 12" "hasMore s" "\<not> isLoadingMore s" "currentIndex s + 1 < 7"
  shows "advance env s = s\<lparr> currentIndex := currentIndex s + 1 \<rparr>"
  using assms
  by (simp add: advance_def run_lookahead_def lookahead_deps_def lookahead_effect_def Let_def)

lemma adv_fire:
  assumes "length (videos s) = 12" "hasMore s" "\<not> isLoadingMore s" "currentIndex s + 1 \<ge> 7"
    "\<not> key_missing env"
  shows "advance env s = s\<lparr> currentIndex := currentIndex s + 1, isLoadingMore := True,
      requests := requests s @ [page s + 1], inflight := Some (page s + 1, True) \<rparr>"
  using assms
  by (simp add: advance_def run_lookahead_def lookahead_deps_def lookahead_effect_def Let_def
      loadMore_begin_def fetchVideos_begin_def)

lemma adv_loading:
  assumes "isLoadingMore s"
  shows "advance env s = s\<lparr> currentIndex := currentIndex s + 1 \<rparr>"
  using assms
  by (simp add: advance_def run_lookahead_def lookahead_deps_def lookahead_effect_def Let_def)

lemma advanceN_twelve:
  assumes "length (videos s) = 12" "hasMore s" "\<not> isLoadingMore s" "currentIndex s = 0"
    "\<not> key_missing env"
  shows "advanceN env n s =
     (if n < 7 then s\<lparr> currentIndex := int n \<rparr>
      else s\<lparr> currentIndex := int n, isLoadingMore := True,
             requests := requests s @ [page s + 1], inflight := Some (page s + 1, True) \<rparr>)"
proof (induction n)
  case 0
  then show ?case using assms by simp
next
  case (Suc n)
  have step: "advanceN env (Suc n) s = advance env (advanceN env n s)" by simp
  show ?case
  proof (cases "n < 7")
    case True
    then have ih: "advanceN env n s = s\<lparr> currentIndex := int n \<rparr>" using Suc by simp
    show ?thesis
    proof (cases "n < 6")
      case True
      then show ?thesis unfolding step ih using assms by (simp add: adv_idle)
    next
      case False
      then have "int n + 1 \<ge> 7" by simp
      then show ?thesis unfolding step ih using assms False by (simp add: adv_fire)
    qed
  next
    case False
    then have ih: "advanceN env n s = s\<lparr> currentIndex := int n, isLoadingMore := True,
             requests := requests s @ [page s + 1], inflight := Some (page s + 1, True) \<rparr>"
      using Suc by simp
    show ?thesis unfolding step ih using False by (simp add: adv_loading)
  qed
qed

text \<open>
  C8, as stated, fails: with twelve items the remaining count at index 7 is
  \<open>12 - (7 + 1) = 4\<close>, which already satisfies \<open>remaining <= 4\<close>.  The request for page 2
  is issued when \<open>currentIndex\<close> reaches 7, before it reaches 8; after six steps none
  has been issued.
\<close>

theorem lookahead_trigger_counterexample:
  "currentIndex (advanceN None 7 loaded12) = 7
   \<and> requests (advanceN None 7 loaded12) = [2]
   \<and> requests (advanceN None 6 loaded12) = []"
  using advanceN_twelve [of loaded12 None 7] advanceN_twelve [of loaded12 None 6]
  by (simp add: loaded12_def initial_pstate_def key_missing_def API_KEY_def DEFAULT_KEY_def)

lemma adv_far:
  assumes "int (length (videos s)) - (currentIndex s + 2) > 4"
  shows "advance env s = s\<lparr> currentIndex := currentIndex s + 1 \<rparr>"
  using assms
  by (simp add: advance_def run_lookahead_def lookahead_deps_def lookahead_effect_def Let_def)

lemma advanceN_far:
  assumes "int (length (videos s)) - (currentIndex s + 1 + int m) > 4"
  shows "advanceN env m s = s\<lparr> currentIndex := currentIndex s + int m \<rparr>"
  using assms
proof (induction m)
  case 0 then show ?case by simp
next
  case (Suc m)
  then have ih: "advanceN env m s = s\<lparr> currentIndex := currentIndex s + int m \<rparr>" by simp
  have st: "advanceN env (Suc m) s = advance env (advanceN env m s)" by simp
  show ?case unfolding st ih using Suc.prems by (simp add: adv_far)
qed

lemma answer_full_page:
  assumes "isLoadingMore t" "length raw = PER_PAGE"
    "int (length (videos (fst (fetchVideos_end True (Ok raw) t)))) - (currentIndex t + 1) > 4"
  shows "answer_loadMore env np (Ok raw) t =
     t\<lparr> videos := setVideos_updater True (formatted_of raw) (videos t), hasMore := True,
        status := Success, inflight := None, isLoadingMore := False, page := np \<rparr>"
  using assms
  by (simp add: answer_loadMore_def loadMore_end_def fetchVideos_end_def finally_block_def Let_def
      run_lookahead_def lookahead_deps_def lookahead_effect_def)


lemma formatVideo_sample: "map_option fv_id (formatVideo (sample_raw n ''video/mp4'')) = Some n"
  by (simp add: formatVideo_def sample_raw_def nullish_def Let_def)

lemma ids_formatted_sample:
  "map fv_id (formatted_of (map (\<lambda>n. sample_raw n ''video/mp4'') ns)) = ns"
proof (induction ns)
  case Nil then show ?case by (simp add: formatted_of_def map_filter_simps)
next
  case (Cons n ns)
  obtain v where v: "formatVideo (sample_raw n ''video/mp4'') = Some v" "fv_id v = n"
    using formatVideo_sample[of n] by (cases "formatVideo (sample_raw n ''video/mp4'')") auto
  show ?case using Cons v by (simp add: formatted_of_def map_filter_simps)
qed

lemma updater_disjoint_length:
  assumes "set (map fv_id formatted) \<inter> set (map fv_id prev) = {}"
  shows "length (setVideos_updater True formatted prev) = length prev + length formatted"
proof -
  have "filter (\<lambda>video. fv_id video \<notin> set (map fv_id prev)) formatted = formatted"
    using assms by (auto simp: filter_id_conv)
  then show ?thesis by (simp add: setVideos_updater_def Let_def)
qed

text \<open>
  C8 (amended).  With twelve items loaded, \<open>hasMore\<close> true, no request outstanding and
  \<open>currentIndex\<close> starting at 0, advancing one index at a time up to the last index
  issues exactly one pagination request, for the next page, and it is issued when
  \<open>currentIndex\<close> reaches 7.  No further request is issued while that one is outstanding,
  nor after it was answered with a full page that brings the feed to 24 items.
\<close>

theorem lookahead_single_request:
  assumes "length (videos s) = 12" "hasMore s" "\<not> isLoadingMore s" "currentIndex s = 0"
    "requests s = []" "\<not> key_missing env" "n \<le> 11"
  shows "currentIndex (advanceN env n s) = int n
     \<and> requests (advanceN env n s) = (if n < 7 then [] else [page s + 1])
     \<and> (7 \<le> n \<and> n + m \<le> 11 \<and> length raw = PER_PAGE
          \<and> length (videos (fst (fetchVideos_end True (Ok raw) (advanceN env n s)))) = 24 \<longrightarrow>
            currentIndex (advanceN env m (answer_loadMore env (page s + 1) (Ok raw) (advanceN env n s)))
              = int (n + m)
            \<and> requests (advanceN env m (answer_loadMore env (page s + 1) (Ok raw) (advanceN env n s)))
              = [page s + 1])"
proof -
  note st = advanceN_twelve[OF assms(1-4,6), of n]
  have a: "currentIndex (advanceN env n s) = int n
     \<and> requests (advanceN env n s) = (if n < 7 then [] else [page s + 1])"
    using assms by (simp add: st)
  have b: "7 \<le> n \<and> n + m \<le> 11 \<and> length raw = PER_PAGE
          \<and> length (videos (fst (fetchVideos_end True (Ok raw) (advanceN env n s)))) = 24 \<longrightarrow>
            currentIndex (advanceN env m (answer_loadMore env (page s + 1) (Ok raw) (advanceN env n s)))
              = int (n + m)
            \<and> requests (advanceN env m (answer_loadMore env (page s + 1) (Ok raw) (advanceN env n s)))
              = [page s + 1]"
  proof
    assume h: "7 \<le> n \<and> n + m \<le> 11 \<and> length raw = PER_PAGE
          \<and> length (videos (fst (fetchVideos_end True (Ok raw) (advanceN env n s)))) = 24"
    let ?t = "advanceN env n s"
    have t: "?t = s\<lparr> currentIndex := int n, isLoadingMore := True,
             requests := requests s @ [page s + 1], inflight := Some (page s + 1, True) \<rparr>"
      using h by (simp add: st)
    have l: "isLoadingMore ?t" "currentIndex ?t = int n" "requests ?t = [page s + 1]"
      using assms(5) by (simp_all add: t)
    have far: "int (length (videos (fst (fetchVideos_end True (Ok raw) ?t)))) - (currentIndex ?t + 1) > 4"
      using h l(2) by simp
    note ans = answer_full_page[OF l(1) _ far, where np = "page s + 1" and env = env]
    let ?u = "answer_loadMore env (page s + 1) (Ok raw) ?t"
    have u: "?u = ?t\<lparr> videos := setVideos_updater True (formatted_of raw) (videos ?t), hasMore := True,
        status := Success, inflight := None, isLoadingMore := False, page := page s + 1 \<rparr>"
      using ans h by simp
    have vu: "videos ?u = videos (fst (fetchVideos_end True (Ok raw) ?t))"
      unfolding u by (simp add: videos_after_ok)
    have lu: "length (videos ?u) = 24" using h by (simp only: vu)
    have cu: "currentIndex ?u = int n" "requests ?u = [page s + 1]"
      unfolding u using l by simp_all
    have "int (length (videos ?u)) - (currentIndex ?u + 1 + int m) > 4" using h lu cu by simp
    from advanceN_far[OF this, of env]
    show "currentIndex (advanceN env m ?u) = int (n + m) \<and> requests (advanceN env m ?u) = [page s + 1]"
      using cu by simp
  qed
  show ?thesis using a b by blast
qed


theorem lookahead_single_request_witness:
  "length (videos loaded12) = 12 \<and> hasMore loaded12 \<and> \<not> isLoadingMore loaded12
   \<and> currentIndex loaded12 = 0 \<and> requests loaded12 = [] \<and> \<not> key_missing None
   \<and> (8::nat) \<le> 11 \<and> (7::nat) \<le> 8 \<and> (8::nat) + 3 \<le> 11
   \<and> length (map (\<lambda>n. sample_raw n ''video/mp4'') [13..24]) = PER_PAGE
   \<and> length (videos (fst (fetchVideos_end True (Ok (map (\<lambda>n. sample_raw n ''video/mp4'') [13..24]))
          (advanceN None 8 loaded12)))) = 24
   \<and> currentIndex (advanceN None 8 loaded12) = int 8
   \<and> requests (advanceN None 8 loaded12) = [page loaded12 + 1]
   \<and> requests (advanceN None 3 (answer_loadMore None (page loaded12 + 1)
          (Ok (map (\<lambda>n. sample_raw n ''video/mp4'') [13..24])) (advanceN None 8 loaded12)))
       = [page loaded12 + 1]"
proof -
  let ?R = "map (\<lambda>n. sample_raw n ''video/mp4'') [13..24]"
  have h: "length (videos loaded12) = 12" "hasMore loaded12" "\<not> isLoadingMore loaded12"
    "currentIndex loaded12 = 0" "requests loaded12 = []"
    by (simp_all add: loaded12_def initial_pstate_def)
  have k: "\<not> key_missing None"
    by (simp add: key_missing_def API_KEY_def DEFAULT_KEY_def)
  have n: "(8::nat) \<le> 11" "(7::nat) \<le> 8" "(8::nat) + 3 \<le> 11" by simp_all
  have p: "length ?R = PER_PAGE"
    by (simp add: PER_PAGE_def)
  have v8: "videos (advanceN None 8 loaded12) = videos loaded12"
    by (simp add: advanceN_twelve[OF h(1-4) k])
  have ids: "map fv_id (videos loaded12) = [1..12]"
    by (simp add: loaded12_def initial_pstate_def sample_video_def comp_def map_idI)
  have dj: "set (map fv_id (formatted_of ?R)) \<inter> set (map fv_id (videos loaded12)) = {}"
    unfolding ids ids_formatted_sample by auto
  have lf: "length (formatted_of ?R) = 12"
    using length_map[of fv_id "formatted_of ?R"] unfolding ids_formatted_sample by simp
  have l24: "length (videos (fst (fetchVideos_end True (Ok ?R) (advanceN None 8 loaded12)))) = 24"
    unfolding videos_after_ok v8 using updater_disjoint_length[OF dj] h(1) lf by simp
  note T = lookahead_single_request [OF h k n(1), where m = 3 and raw = ?R]
  have A: "currentIndex (advanceN None 8 loaded12) = int 8" using T by blast
  have B: "requests (advanceN None 8 loaded12) = [page loaded12 + 1]"
    using conjunct1[OF conjunct2[OF T]] by simp
  have C: "requests (advanceN None 3 (answer_loadMore None (page loaded12 + 1) (Ok ?R)
          (advanceN None 8 loaded12))) = [page loaded12 + 1]"
    using T n p l24 by blast
  show ?thesis using h k n p l24 A B C by blast
qed

section \<open>Properties of the audio toggle\<close>

lemma map_of_update_element:
  "map_of (update_element k f refs) k' =
     (if k' = k then map_option f (map_of refs k) else map_of refs k')"
  by (induction refs) (auto simp: update_element_def)

lemma map_of_mute_all:
  "map_of (map (\<lambda>(videoId, element). (videoId, element\<lparr> muted := g videoId \<rparr>)) refs) k =
     map_option (\<lambda>e. e\<lparr> muted := g k \<rparr>) (map_of refs k)"
  by (induction refs) auto

lemma click_active:
  assumes "map_of (videoRefs s) k = Some v" "unmutedVideoId s = Some k"
  shows "handleVideoClick k s =
     s\<lparr> videoRefs := update_element k (\<lambda>e. e\<lparr> muted := True \<rparr>) (videoRefs s), unmutedVideoId := None \<rparr>"
  using assms by (simp add: handleVideoClick_def)

lemma click_other:
  assumes "map_of (videoRefs s) k = Some v" "unmutedVideoId s \<noteq> Some k"
  shows "handleVideoClick k s =
     s\<lparr> videoRefs := update_element k (\<lambda>e. e\<lparr> playing := True \<rparr>)
          (update_element k (\<lambda>e. e\<lparr> muted := False \<rparr>)
            (map (\<lambda>(videoId, element). (videoId, element\<lparr> muted := (videoId \<noteq> k) \<rparr>)) (videoRefs s))),
        unmutedVideoId := Some k \<rparr>"
  using assms by (simp add: handleVideoClick_def Let_def)

lemma click_other_lookup:
  assumes "map_of (videoRefs s) k = Some v" "unmutedVideoId s \<noteq> Some k"
  shows "map_of (videoRefs (handleVideoClick k s)) k' =
     (if k' = k then Some (v\<lparr> muted := False, playing := True \<rparr>)
      else map_option (\<lambda>e. e\<lparr> muted := True \<rparr>) (map_of (videoRefs s) k'))"
  using assms by (simp add: click_other map_of_update_element map_of_mute_all)

lemma click_other_muted:
  assumes "map_of (videoRefs s) k = Some v" "unmutedVideoId s \<noteq> Some k"
    "(k', e) \<in> set (videoRefs (handleVideoClick k s))"
  shows "muted e = (k' \<noteq> k)"
  using assms by (auto simp: click_other update_element_def)

lemma click_twice_muted:
  assumes "map_of (videoRefs s) k = Some v" "unmutedVideoId s \<noteq> Some k"
    "(k', e) \<in> set (videoRefs (handleVideoClick k (handleVideoClick k s)))"
  shows "muted e"
proof -
  let ?s1 = "handleVideoClick k s"
  have r1: "map_of (videoRefs ?s1) k = Some (v\<lparr> muted := False, playing := True \<rparr>)"
    using assms(1,2) by (simp add: click_other_lookup)
  have u1: "unmutedVideoId ?s1 = Some k" using assms(1,2) by (simp add: click_other)
  have "handleVideoClick k ?s1 = ?s1\<lparr> videoRefs := update_element k (\<lambda>e. e\<lparr> muted := True \<rparr>) (videoRefs ?s1), unmutedVideoId := None \<rparr>"
    using click_active[OF r1 u1] .
  then obtain e0 where e0: "(k', e0) \<in> set (videoRefs ?s1)" "e = (if k' = k then e0\<lparr> muted := True \<rparr> else e0)"
    using assms(3) by (auto simp: update_element_def)
  show ?thesis using click_other_muted[OF assms(1,2) e0(1)] e0(2) by auto
qed

lemma click_unregistered: "map_of (videoRefs s) k = None \<Longrightarrow> handleVideoClick k s = s"
  by (simp add: handleVideoClick_def)

lemma click_keys: "map fst (videoRefs (handleVideoClick k s)) = map fst (videoRefs s)"
  by (auto simp: handleVideoClick_def Let_def update_element_def split: option.splits)

lemma click_frame:
  "videos (handleVideoClick k s) = videos s" "currentIndex (handleVideoClick k s) = currentIndex s"
  by (auto simp: handleVideoClick_def Let_def split: option.splits)


section \<open>Properties of the gesture variant\<close>

subsection \<open>The invariants hold in every reachable state\<close>

lemma findIndex_range: "findIndex p xs = - 1 \<or> (0 \<le> findIndex p xs \<and> findIndex p xs < int (length xs))"
  by (induction xs) (auto simp: Let_def)

lemma findIndex_sat: "0 \<le> findIndex p xs \<Longrightarrow> p (xs ! nat (findIndex p xs))"
proof (induction xs)
  case Nil then show ?case by simp
next
  case (Cons x xs)
  show ?case
  proof (cases "p x")
    case True then show ?thesis by simp
  next
    case False
    with Cons.prems have nn: "0 \<le> findIndex p xs" by (auto simp: Let_def split: if_splits)
    then have "findIndex p (x # xs) = findIndex p xs + 1" using False by (simp add: Let_def)
    moreover have "nat (findIndex p xs + 1) = Suc (nat (findIndex p xs))" using nn by simp
    ultimately show ?thesis using Cons.IH[OF nn] by simp
  qed
qed

lemma unm_reg_iff: "unm_reg s = (\<forall>k. unmutedVideoId s = Some k \<longrightarrow> k \<in> set (map fst (videoRefs s)))"
  by (auto simp: unm_reg_def split: option.splits)

lemma unm_ok_iff: "unm_ok s = (\<forall>k. unmutedVideoId s = Some k \<longrightarrow> isActive_entry s k)"
  by (auto simp: unm_ok_def split: option.splits)

lemma mute_ok_iff: "mute_ok s = (\<forall>x \<in> set (videoRefs s). \<not> muted (snd x) \<longrightarrow> unmutedVideoId s = Some (fst x))"
  by (simp add: mute_ok_def list_all_iff case_prod_unfold)

lemma play_ok_iff: "play_ok s = (\<forall>x \<in> set (videoRefs s). playing (snd x) \<longrightarrow> isActive_entry s (fst x))"
  by (simp add: play_ok_def list_all_iff case_prod_unfold)

lemma isActive_core:
  "videos s = videos t \<Longrightarrow> currentIndex s = currentIndex t \<Longrightarrow> isActive_entry s k = isActive_entry t k"
  by (simp add: isActive_entry_def)

lemma pre_ok_core: "core s = core t \<Longrightarrow> pre_ok s = pre_ok t"
  unfolding core_def pre_ok_def refs_ok_def dom_ok_def idx_ok_def mute_ok_iff unm_reg_iff
  by simp

lemma inv_core: "core s = core t \<Longrightarrow> inv s = inv t"
  unfolding inv_def play_ok_iff unm_ok_iff
  using pre_ok_core[of s t] isActive_core[of s t]
  by (auto simp: core_def)

lemma muteEffect_keys: "map fst (videoRefs (muteEffect s)) = map fst (videoRefs s)"
  by (simp add: muteEffect_def case_prod_unfold comp_def)

lemma muteEffect_frame:
  "videos (muteEffect s) = videos s" "currentIndex (muteEffect s) = currentIndex s"
  "unmutedVideoId (muteEffect s) = unmutedVideoId s"
  by (simp_all add: muteEffect_def)

lemma muteEffect_frame_g:
  "feedRef (muteEffect s) = feedRef s"
  "cards (muteEffect s) = cards s" "fetchPending (muteEffect s) = fetchPending s"
  by (simp_all add: muteEffect_def)

lemma muteEffect_active: "isActive_entry (muteEffect s) k = isActive_entry s k"
  by (simp add: isActive_entry_def muteEffect_frame)

lemma muteEffect_mute_ok: "mute_ok (muteEffect s)"
  by (auto simp: mute_ok_iff muteEffect_def)

lemma muteEffect_pre_ok: "pre_ok s \<Longrightarrow> pre_ok (muteEffect s)"
  unfolding pre_ok_def refs_ok_def dom_ok_def idx_ok_def unm_reg_iff muteEffect_keys muteEffect_frame
    muteEffect_frame_g
  using muteEffect_mute_ok by blast

lemma muteEffect_play_ok: "play_ok s \<Longrightarrow> play_ok (muteEffect s)"
  unfolding play_ok_iff muteEffect_active
  by (auto simp: muteEffect_def)

lemma muteEffect_unm_ok: "unm_ok s \<Longrightarrow> unm_ok (muteEffect s)"
  unfolding unm_ok_iff muteEffect_active muteEffect_frame .

lemma pp_entry_key: "fst (playPause_entry s x) = fst x"
  by (cases x) (simp add: playPause_entry_def Let_def)

lemma pp_keys: "map fst (videoRefs (playPauseEffect s)) = map fst (videoRefs s)"
  by (simp add: playPauseEffect_def pp_entry_key comp_def)

lemma pp_frame:
  "videos (playPauseEffect s) = videos s" "currentIndex (playPauseEffect s) = currentIndex s"
  by (simp_all add: playPauseEffect_def)

lemma pp_frame_g:
  "feedRef (playPauseEffect s) = feedRef s"
  "cards (playPauseEffect s) = cards s" "fetchPending (playPauseEffect s) = fetchPending s"
  "scrollState (playPauseEffect s) = scrollState s"
  by (simp_all add: playPauseEffect_def)

lemma pp_active: "isActive_entry (playPauseEffect s) k = isActive_entry s k"
  by (simp add: isActive_entry_def pp_frame)

lemma pp_unmuted:
  "unmutedVideoId (playPauseEffect s) =
     (if videos s \<noteq> [] \<and> (\<exists>k e. (k, e) \<in> set (videoRefs s) \<and> \<not> isActive_entry s k \<and> unmutedVideoId s = Some k)
      then None else unmutedVideoId s)"
  by (auto simp: playPauseEffect_def list_ex_iff)

lemma pp_refs:
  "videos s \<noteq> [] \<Longrightarrow> videoRefs (playPauseEffect s) = map (playPause_entry s) (videoRefs s)"
  by (simp add: playPauseEffect_def)

lemma pp_entry_playing: "playing (snd (playPause_entry s x)) = isActive_entry s (fst x)"
  by (cases x) (simp add: playPause_entry_def Let_def)

lemma pp_entry_muted:
  "muted (snd (playPause_entry s x)) =
     (muted (snd x) \<or> (\<not> isActive_entry s (fst x) \<and> unmutedVideoId s = Some (fst x)))"
  by (cases x) (simp add: playPause_entry_def Let_def)

lemma pp_play_ok: "refs_ok s \<Longrightarrow> play_ok (playPauseEffect s)"
proof (cases "videos s = []")
  case True
  assume "refs_ok s"
  then have "videoRefs s = []" using True by (simp add: refs_ok_def)
  then show ?thesis using True by (simp add: play_ok_def playPauseEffect_def)
next
  case False
  show ?thesis unfolding play_ok_iff pp_active pp_refs[OF False]
    by (simp add: pp_entry_playing pp_entry_key)
qed

lemma pp_mute_ok: "mute_ok s \<Longrightarrow> mute_ok (playPauseEffect s)"
proof (cases "videos s = []")
  case True
  assume "mute_ok s" then show ?thesis using True by (simp add: playPauseEffect_def)
next
  case False
  assume m: "mute_ok s"
  show ?thesis unfolding mute_ok_iff pp_refs[OF False] pp_unmuted
    using m by (auto simp: mute_ok_iff pp_entry_muted pp_entry_key)
qed

lemma pp_unm_ok: "unm_reg s \<Longrightarrow> idx_ok s \<Longrightarrow> unm_ok (playPauseEffect s)"
  unfolding unm_ok_iff pp_active pp_unmuted unm_reg_iff idx_ok_def
  by (auto split: if_splits) blast

lemma pp_unm_reg: "unm_reg s \<Longrightarrow> unm_reg (playPauseEffect s)"
  unfolding unm_reg_iff pp_keys pp_unmuted by (auto split: if_splits)

lemma pp_idx_ok: "idx_ok s \<Longrightarrow> idx_ok (playPauseEffect s)"
  unfolding idx_ok_def pp_frame pp_frame_g pp_unmuted by (auto split: if_splits)

lemma pp_pre_ok: "pre_ok s \<Longrightarrow> pre_ok (playPauseEffect s)"
  unfolding pre_ok_def
  using pp_mute_ok[of s] pp_unm_reg[of s] pp_idx_ok[of s]
  by (simp add: refs_ok_def dom_ok_def pp_keys pp_frame pp_frame_g)

lemma pp_inv: "pre_ok s \<Longrightarrow> inv (playPauseEffect s)"
  unfolding inv_def using pp_pre_ok[of s] pp_play_ok[of s] pp_unm_ok[of s]
  by (simp add: pre_ok_def)

lemma core_rest: "core s = core t \<longleftrightarrow> rest s = rest t \<and> currentIndex s = currentIndex t"
  by (auto simp: core_def rest_def)

lemma set_style_rest: "rest (set_style c tf tr s) = rest s"
  by (simp add: rest_def set_style_def)

lemma set_style_index: "currentIndex (set_style c tf tr s) = currentIndex s"
  by (simp add: set_style_def)

lemma snap_rest: "rest (snapToIndex t i s) = rest s"
  by (auto simp: snapToIndex_def Let_def rest_def set_style_def split: option.splits)

lemma snap_index:
  "currentIndex (snapToIndex t i s) = currentIndex s
   \<or> currentIndex (snapToIndex t i s) = max 0 (min t (int (length (videos s)) - 1))"
  by (auto simp: snapToIndex_def Let_def set_style_def split: option.splits)

lemma snap_index_in_range:
  assumes "0 \<le> t" "t < int (length (videos s))"
  shows "currentIndex (snapToIndex t i s) = currentIndex s \<or> currentIndex (snapToIndex t i s) = t"
  using snap_index[of t i s] assms by auto

lemma rest_upd:
  "rest (s\<lparr> scrollState := x \<rparr>) = rest s"
  "rest (s\<lparr> wheelTimeout := b \<rparr>) = rest s"
  "rest (s\<lparr> snapTimeouts := l \<rparr>) = rest s"
  "rest (s\<lparr> scrolledTo := z \<rparr>) = rest s"
  by (simp_all add: rest_def)

lemma wheel_rest: "rest (handleWheel d n h s) = rest s"
  by (simp add: handleWheel_def Let_def rest_upd set_style_rest snap_rest split: option.splits)

lemma snap_index_eq:
  "currentIndex (snapToIndex t i s) =
     (let c = max 0 (min t (int (length (videos s)) - 1))
      in if (c = currentIndex s \<and> \<not> i) \<or> getCardByIndex s c = None then currentIndex s else c)"
  by (auto simp: snapToIndex_def Let_def set_style_def split: option.splits)

lemma getCard_upd [simp]:
  "getCardByIndex (s\<lparr> scrollState := x \<rparr>) c = getCardByIndex s c"
  by (simp add: getCardByIndex_def)

lemma wheel_index:
  "currentIndex (handleWheel d n h s) = currentIndex s
   \<or> (0 \<le> currentIndex (handleWheel d n h s)
       \<and> currentIndex (handleWheel d n h s) < int (length (videos s)))"
  unfolding handleWheel_def Let_def
  by (auto simp: set_style_index snap_index_eq Let_def split: option.splits)

lemma touchStart_core: "core (handleTouchStart y s) = core s"
  by (simp add: handleTouchStart_def core_def)

lemma touchMove_core: "core (handleTouchMove y s) = core s"
  by (simp add: handleTouchMove_def Let_def core_def set_style_def split: option.splits)

lemma wheelIdle_core: "core (wheelTimeout_fire s) = core s"
  by (simp add: wheelTimeout_fire_def Let_def core_def set_style_def split: option.splits)

lemma snapTimer_core: "core (snapTimeout_fire d s) = core s"
  by (simp add: snapTimeout_fire_def core_def)

lemma touchEnd_rest: "rest (handleTouchEnd h s) = rest s"
  by (simp add: handleTouchEnd_def Let_def rest_upd set_style_rest snap_rest split: option.splits)

lemma touchEnd_index:
  "currentIndex (handleTouchEnd h s) = currentIndex s
   \<or> (0 \<le> currentIndex (handleTouchEnd h s)
       \<and> currentIndex (handleTouchEnd h s) < int (length (videos s)))"
  unfolding handleTouchEnd_def Let_def
  by (auto simp: set_style_index snap_index_eq Let_def split: option.splits)

lemma inv_rest: "rest s = rest t \<Longrightarrow> currentIndex s = currentIndex t \<Longrightarrow> inv s = inv t"
  using inv_core[of s t] core_rest[of s t] by simp

lemma pre_ok_rest: "rest s = rest t \<Longrightarrow> currentIndex s = currentIndex t \<Longrightarrow> pre_ok s = pre_ok t"
  using pre_ok_core[of s t] core_rest[of s t] by simp

lemma snap_first_core:
  assumes "currentIndex s = 0" "length (videos s) > 0"
  shows "core (snapToIndex 0 True s) = core s"
  using assms by (simp add: core_rest snap_rest snap_index_eq Let_def)

lemma run_effects_inv:
  assumes p: "pre_ok s0" and q: "\<not> (ic \<or> vc \<or> uc) \<Longrightarrow> play_ok s0 \<and> unm_ok s0"
  shows "inv (run_effects vc uc ic s0)"
proof -
  define s1 where "s1 = (if uc then muteEffect s0 else s0)"
  define s2 where "s2 = (if ic \<or> vc \<or> uc then playPauseEffect s1 else s1)"
  define s3 where "s3 = (if vc \<or> ic then s2\<lparr> wheelTimeout := False \<rparr> else s2)"
  define s4 where "s4 = (if vc \<or> ic
                then (if length (videos s3) > 0 \<and> currentIndex s3 = 0
                      then snapToIndex 0 True s3 else s3)
                else s3)"
  have r: "run_effects vc uc ic s0 = s4"
    by (simp add: run_effects_def Let_def s1_def s2_def s3_def s4_def)
  have p1: "pre_ok s1" using p by (simp add: s1_def muteEffect_pre_ok)
  have i2: "inv s2"
  proof (cases "ic \<or> vc \<or> uc")
    case True
    then show ?thesis using pp_inv[OF p1] by (simp add: s2_def)
  next
    case False
    then have "s2 = s0" by (simp add: s2_def s1_def)
    then show ?thesis using p q[OF False] by (simp add: inv_def)
  qed
  have c3: "core s3 = core s2" by (simp add: s3_def core_def)
  have c4: "core s4 = core s3" by (simp add: s4_def snap_first_core)
  show ?thesis unfolding r using i2 inv_core[OF c3] inv_core[OF c4] by simp
qed

lemma click_frame_g:
  "feedRef (handleVideoClick k s) = feedRef s" "cards (handleVideoClick k s) = cards s"
  "fetchPending (handleVideoClick k s) = fetchPending s"
  by (auto simp: handleVideoClick_def Let_def split: option.splits)

lemma click_unmuted:
  "map_of (videoRefs s) k = Some v \<Longrightarrow>
   unmutedVideoId (handleVideoClick k s) = (if unmutedVideoId s = Some k then None else Some k)"
  by (simp add: handleVideoClick_def Let_def)

lemma click_changes: "map_of (videoRefs s) k = Some v \<Longrightarrow> unmutedVideoId (handleVideoClick k s) \<noteq> unmutedVideoId s"
  by (auto simp: click_unmuted)

lemma click_mute_ok: "mute_ok s \<Longrightarrow> mute_ok (handleVideoClick k s)"
proof (cases "map_of (videoRefs s) k")
  case None
  assume "mute_ok s" then show ?thesis using None by (simp add: click_unregistered)
next
  case (Some v)
  assume m: "mute_ok s"
  show ?thesis
  proof (cases "unmutedVideoId s = Some k")
    case True
    then show ?thesis using m Some
      by (fastforce simp: mute_ok_iff handleVideoClick_def update_element_def)
  next
    case False
    then show ?thesis using Some
      by (auto simp: mute_ok_iff handleVideoClick_def update_element_def Let_def split: if_splits)
  qed
qed

lemma click_pre_ok: "pre_ok s \<Longrightarrow> pre_ok (handleVideoClick k s)"
proof (cases "map_of (videoRefs s) k")
  case None
  assume "pre_ok s" then show ?thesis using None by (simp add: click_unregistered)
next
  case (Some v)
  assume p: "pre_ok s"
  have "(k, v) \<in> set (videoRefs s)" using Some by (rule map_of_SomeD)
  then have reg: "k \<in> set (map fst (videoRefs s))" by force
  have ne: "videos s \<noteq> []" using p reg by (auto simp: pre_ok_def refs_ok_def)
  show ?thesis
    unfolding pre_ok_def refs_ok_def dom_ok_def idx_ok_def unm_reg_iff click_keys click_frame click_frame_g
      click_unmuted[OF Some]
    using p click_mute_ok[of s k] reg ne
    by (auto simp: pre_ok_def refs_ok_def dom_ok_def idx_ok_def)
qed

lemma run_effects_videos: "videos (run_effects vc uc ic s) = videos s"
proof -
  have a: "\<And>t. videos (snapToIndex 0 True t) = videos t"
    using snap_rest by (metis rest_def prod.inject)
  show ?thesis
    by (simp add: run_effects_def Let_def a pp_frame muteEffect_frame)
qed

lemma commit_videos: "videos (commit prev s) = videos s"
  by (simp add: commit_def Let_def run_effects_videos)

lemma commit_inv_same:
  assumes "videos s = videos prev" "pre_ok s"
    and "currentIndex s = currentIndex prev \<Longrightarrow> unmutedVideoId s = unmutedVideoId prev \<Longrightarrow>
         play_ok s \<and> unm_ok s"
  shows "inv (commit prev s)"
proof -
  have "commit prev s =
      run_effects False (unmutedVideoId s \<noteq> unmutedVideoId prev) (currentIndex s \<noteq> currentIndex prev) s"
    using assms(1) by (simp add: commit_def Let_def)
  then show ?thesis using run_effects_inv[OF assms(2), of "currentIndex s \<noteq> currentIndex prev" False
        "unmutedVideoId s \<noteq> unmutedVideoId prev"] assms(3) by auto
qed

lemma render_pre_ok:
  assumes "vs \<noteq> []" "videos s = vs" "videoRefs s = []" "cards s = []" "currentIndex s = 0"
    "unmutedVideoId s = None" "feedRef s" "\<not> fetchPending s"
  shows "pre_ok (s\<lparr> videoRefs := render_refs vs (videoRefs s), cards := render_cards vs (cards s) \<rparr>)"
  using assms
  by (auto simp: pre_ok_def refs_ok_def dom_ok_def idx_ok_def mute_ok_iff unm_reg_iff
      render_refs_def render_cards_def comp_def fresh_element_def)

lemma commit_inv_load:
  assumes "videos prev = []" "videos s \<noteq> []" "videoRefs s = []" "cards s = []" "currentIndex s = 0"
    "unmutedVideoId s = None" "feedRef s" "\<not> fetchPending s"
  shows "inv (commit prev s)"
proof -
  let ?s0 = "s\<lparr> videoRefs := render_refs (videos s) (videoRefs s), cards := render_cards (videos s) (cards s) \<rparr>"
  have "commit prev s =
      run_effects True (unmutedVideoId s \<noteq> unmutedVideoId prev) (currentIndex s \<noteq> currentIndex prev) ?s0"
    using assms(1,2) by (simp add: commit_def Let_def)
  moreover have "pre_ok ?s0" using render_pre_ok[OF assms(2) refl assms(3-8)] .
  ultimately show ?thesis using run_effects_inv[of ?s0 "currentIndex s \<noteq> currentIndex prev" True
        "unmutedVideoId s \<noteq> unmutedVideoId prev"] by simp
qed

lemma commit_again: "inv s1 \<Longrightarrow> videos s1 = videos h \<Longrightarrow> inv (commit h s1)"
  by (rule commit_inv_same) (simp_all add: inv_def)

lemma settle_inv_same:
  assumes "videos s = videos prev" "pre_ok s"
    and "currentIndex s = currentIndex prev \<Longrightarrow> unmutedVideoId s = unmutedVideoId prev \<Longrightarrow>
         play_ok s \<and> unm_ok s"
  shows "inv (settle prev s)"
  unfolding settle_def Let_def
  using commit_again[OF commit_inv_same[OF assms] commit_videos] .

lemma settle_inv_core:
  assumes "inv prev" "rest s = rest prev"
    "currentIndex s = currentIndex prev \<or> (0 \<le> currentIndex s \<and> currentIndex s < int (length (videos prev)))"
  shows "inv (settle prev s)"
proof (rule settle_inv_same)
  show v: "videos s = videos prev" using assms(2) by (simp add: rest_def)
  have p: "pre_ok prev" using assms(1) by (simp add: inv_def)
  show "pre_ok s"
    using p assms(2,3) v
    unfolding pre_ok_def refs_ok_def dom_ok_def idx_ok_def mute_ok_iff unm_reg_iff rest_def
    by auto
  assume "currentIndex s = currentIndex prev"
  then have "inv s = inv prev" using inv_rest[OF assms(2)] by simp
  then show "play_ok s \<and> unm_ok s" using assms(1) by (simp add: inv_def)
qed

lemma settle_inv_core_eq: "inv prev \<Longrightarrow> core s = core prev \<Longrightarrow> inv (settle prev s)"
  using settle_inv_core[of prev s] core_rest[of s prev] by simp

lemma fetch_answer_inv:
  assumes i: "inv s"
  shows "inv (settle s (fetch_answer r s))"
proof (cases "fetchPending s")
  case False
  then have "fetch_answer r s = s" by (simp add: fetch_answer_def)
  then show ?thesis using settle_inv_core_eq[OF i, of s] by simp
next
  case True
  have p: "pre_ok s" using i by (simp add: inv_def)
  have e: "videos s = []" using p True by (simp add: pre_ok_def idx_ok_def)
  have f: "currentIndex s = 0" "unmutedVideoId s = None" "videoRefs s = []" "cards s = []" "feedRef s"
    using p e by (simp_all add: pre_ok_def idx_ok_def refs_ok_def dom_ok_def)
  show ?thesis
  proof (cases r)
    case (Ok raw)
    let ?h = "fetch_answer r s"
    have h: "?h = s\<lparr> videos := formatted_of raw, status := Success, fetchPending := False \<rparr>"
      using True Ok by (simp add: fetch_answer_def)
    show ?thesis
    proof (cases "formatted_of raw = []")
      case True
      show ?thesis
      proof (rule settle_inv_same)
        show "videos ?h = videos s" using True e by (simp add: h)
        show "pre_ok ?h" using p True e f
          by (simp add: h pre_ok_def refs_ok_def dom_ok_def idx_ok_def mute_ok_iff unm_reg_iff)
        show "play_ok ?h \<and> unm_ok ?h" using f by (simp add: h play_ok_iff unm_ok_iff)
      qed
    next
      case False
      have "inv (commit s ?h)"
        by (rule commit_inv_load) (simp_all add: h e f False)
      then show ?thesis unfolding settle_def Let_def
        using commit_again commit_videos by blast
    qed
  next
    case (NotOk c m)
    show ?thesis
    proof (rule settle_inv_same)
      show "videos (fetch_answer r s) = videos s" using True NotOk by (simp add: fetch_answer_def)
      show "pre_ok (fetch_answer r s)" using p True NotOk e f
        by (simp add: fetch_answer_def pre_ok_def refs_ok_def dom_ok_def idx_ok_def mute_ok_iff unm_reg_iff)
      show "play_ok (fetch_answer r s) \<and> unm_ok (fetch_answer r s)" using True NotOk f
        by (simp add: fetch_answer_def play_ok_iff unm_ok_iff)
    qed
  next
    case (Failed m)
    show ?thesis
    proof (rule settle_inv_same)
      show "videos (fetch_answer r s) = videos s" using True Failed by (simp add: fetch_answer_def)
      show "pre_ok (fetch_answer r s)" using p True Failed e f
        by (simp add: fetch_answer_def pre_ok_def refs_ok_def dom_ok_def idx_ok_def mute_ok_iff unm_reg_iff)
      show "play_ok (fetch_answer r s) \<and> unm_ok (fetch_answer r s)" using True Failed f
        by (simp add: fetch_answer_def play_ok_iff unm_ok_iff)
    qed
  next
    case Aborted
    show ?thesis
    proof (rule settle_inv_same)
      show "videos (fetch_answer r s) = videos s" using True Aborted by (simp add: fetch_answer_def)
      show "pre_ok (fetch_answer r s)" using p True Aborted e f
        by (simp add: fetch_answer_def pre_ok_def refs_ok_def dom_ok_def idx_ok_def mute_ok_iff unm_reg_iff)
      show "play_ok (fetch_answer r s) \<and> unm_ok (fetch_answer r s)" using True Aborted f
        by (simp add: fetch_answer_def play_ok_iff unm_ok_iff)
    qed
  qed
qed

lemma click_inv:
  assumes i: "inv s"
  shows "inv (settle s (handleVideoClick k s))"
proof (rule settle_inv_same)
  show "videos (handleVideoClick k s) = videos s" by (simp add: click_frame)
  show "pre_ok (handleVideoClick k s)" using i by (simp add: inv_def click_pre_ok)
  assume u: "unmutedVideoId (handleVideoClick k s) = unmutedVideoId s"
  have "map_of (videoRefs s) k = None"
  proof (cases "map_of (videoRefs s) k")
    case None then show ?thesis .
  next
    case (Some v) then show ?thesis using click_changes[OF Some] u by simp
  qed
  then have "handleVideoClick k s = s" by (rule click_unregistered)
  then show "play_ok (handleVideoClick k s) \<and> unm_ok (handleVideoClick k s)"
    using i by (simp add: inv_def)
qed

lemma step_inv: "inv s \<Longrightarrow> inv (step e s)"
proof (cases e)
  case (FetchAnswer r)
  assume "inv s" then show ?thesis using FetchAnswer by (simp add: step_def fetch_answer_inv)
next
  case (Wheel d n h)
  assume i: "inv s"
  show ?thesis
  proof (cases "listening s")
    case True
    then show ?thesis using Wheel settle_inv_core[OF i wheel_rest wheel_index] by (simp add: step_def)
  next
    case False
    then show ?thesis using Wheel settle_inv_core_eq[OF i, of s] by (simp add: step_def)
  qed
next
  case WheelIdle
  assume i: "inv s"
  show ?thesis using WheelIdle settle_inv_core_eq[OF i wheelIdle_core] by (simp add: step_def)
next
  case (TouchStart y)
  assume i: "inv s"
  show ?thesis using TouchStart settle_inv_core_eq[OF i touchStart_core] settle_inv_core_eq[OF i, of s]
    by (simp add: step_def)
next
  case (TouchMove y)
  assume i: "inv s"
  show ?thesis using TouchMove settle_inv_core_eq[OF i touchMove_core] settle_inv_core_eq[OF i, of s]
    by (simp add: step_def)
next
  case (TouchEnd h)
  assume i: "inv s"
  show ?thesis using TouchEnd settle_inv_core[OF i touchEnd_rest touchEnd_index] settle_inv_core_eq[OF i, of s]
    by (simp add: step_def)
next
  case (SnapTimer d)
  assume i: "inv s"
  show ?thesis using SnapTimer settle_inv_core_eq[OF i snapTimer_core] by (simp add: step_def)
next
  case (Click k)
  assume i: "inv s"
  show ?thesis using Click click_inv[OF i] by (simp add: step_def)
qed

lemma mount_inv: "inv (mount rnd env)"
  by (simp add: mount_def initial_gstate_def inv_def pre_ok_def refs_ok_def dom_ok_def idx_ok_def
      mute_ok_def unm_reg_def play_ok_def unm_ok_def)

lemma reachable_inv: "reachable s \<Longrightarrow> inv s"
  by (induction rule: reachable.induct) (simp_all add: mount_inv step_inv)

lemma distinct_singleton_length: "distinct xs \<Longrightarrow> set xs \<subseteq> {a} \<Longrightarrow> length xs \<le> 1"
proof -
  assume d: "distinct xs" and sub: "set xs \<subseteq> {a}"
  have "card (set xs) \<le> card {a}" using sub by (intro card_mono) auto
  then show ?thesis using distinct_card[OF d] by simp
qed

lemma isActive_id:
  assumes "isActive_entry s k" "0 \<le> currentIndex s"
  shows "fv_id (videos s ! nat (currentIndex s)) = k"
  using assms findIndex_sat[of "\<lambda>v. fv_id v = k" "videos s"]
  by (simp add: isActive_entry_def Let_def)

lemma distinct_filter_keys:
  "distinct (map fst xs) \<Longrightarrow> distinct (map fst (filter P xs))"
  by (simp add: distinct_map_filter)

lemma commit_index: "currentIndex (commit prev x) = currentIndex x"
  by (simp add: commit_def run_effects_def Let_def snap_index_eq pp_frame muteEffect_frame)

lemma commit_unmuted: "unmutedVideoId (commit prev x) = Some k \<Longrightarrow> unmutedVideoId x = Some k"
proof -
  have a: "\<And>t. unmutedVideoId (snapToIndex 0 True t) = unmutedVideoId t"
    using snap_rest by (metis rest_def prod.inject)
  assume "unmutedVideoId (commit prev x) = Some k"
  then show ?thesis
    by (simp add: commit_def run_effects_def Let_def a pp_unmuted muteEffect_frame split: if_splits)
qed

lemma settle_index: "currentIndex (settle prev x) = currentIndex x"
  by (simp add: settle_def Let_def commit_index)

lemma settle_videos: "videos (settle prev x) = videos x"
  by (simp add: settle_def Let_def commit_videos)

lemma settle_unmuted: "unmutedVideoId (settle prev x) = Some k \<Longrightarrow> unmutedVideoId x = Some k"
  unfolding settle_def Let_def using commit_unmuted by blast

lemma handle_index_changed:
  assumes "currentIndex (handle_event e s) \<noteq> currentIndex s"
  shows "videos (handle_event e s) = videos s \<and> unmutedVideoId (handle_event e s) = unmutedVideoId s"
proof (cases e)
  case (FetchAnswer r)
  then show ?thesis using assms by (auto simp: fetch_answer_def split: fetch_result.splits if_splits)
next
  case (Wheel d n h)
  then show ?thesis using wheel_rest[of d n h s] by (auto simp: rest_def)
next
  case WheelIdle
  then show ?thesis using wheelIdle_core[of s] by (simp add: core_def)
next
  case (TouchStart y)
  then show ?thesis using touchStart_core[of y s] by (auto simp: core_def)
next
  case (TouchMove y)
  then show ?thesis using touchMove_core[of y s] by (auto simp: core_def)
next
  case (TouchEnd h)
  then show ?thesis using touchEnd_rest[of h s] by (auto simp: rest_def)
next
  case (SnapTimer d)
  then show ?thesis using snapTimer_core[of d s] by (simp add: core_def)
next
  case (Click k)
  then show ?thesis using assms by (simp add: click_frame)
qed

lemma step_index_changed_unmuted:
  assumes i: "inv s" and c: "currentIndex (step e s) \<noteq> currentIndex s"
  shows "unmutedVideoId (step e s) = None"
proof (cases "unmutedVideoId (step e s)")
  case None then show ?thesis .
next
  case (Some k)
  have hc: "currentIndex (handle_event e s) \<noteq> currentIndex s"
    using c by (simp add: step_def settle_index)
  note fr = handle_index_changed[OF hc]
  have "unmutedVideoId (handle_event e s) = Some k"
    using Some settle_unmuted by (simp add: step_def)
  then have us: "unmutedVideoId s = Some k" using fr by simp
  have v: "videos (step e s) = videos s" using fr by (simp add: step_def settle_videos)
  have a1: "isActive_entry s k" using i us by (simp add: inv_def unm_ok_iff)
  have a2: "isActive_entry (step e s) k" using step_inv[OF i, of e] Some by (simp add: inv_def unm_ok_iff)
  from a1 a2 v c show ?thesis by (simp add: isActive_entry_def)
qed

lemma pp_entry_time:
  "\<not> isActive_entry s (fst x) \<Longrightarrow> currentTime (snd (playPause_entry s x)) = 0"
  by (cases x) (simp add: playPause_entry_def Let_def)

text \<open>
  C1.  In every state the component reaches through any sequence of events, once the
  effects have run: with an empty feed no element is playing; with a non-empty feed
  \<open>currentIndex\<close> is a valid index, at most one registered element is playing, and a
  playing element is registered under the id of the item at \<open>currentIndex\<close>.  The
  play/pause effect itself, run in any state \<open>t\<close> with a non-empty feed, requests playback
  for the registered element whose index is \<open>currentIndex\<close> and pauses and rewinds every
  other registered element.
\<close>

theorem single_playing_element:
  assumes "reachable s"
  shows "(videos s = [] \<longrightarrow> playing_ids s = [])
       \<and> (videos s \<noteq> [] \<longrightarrow>
            0 \<le> currentIndex s \<and> currentIndex s < int (length (videos s))
            \<and> length (playing_ids s) \<le> 1
            \<and> set (playing_ids s) \<subseteq> {fv_id (videos s ! nat (currentIndex s))})
       \<and> (length (videos t) \<noteq> 0 \<longrightarrow>
            list_all (\<lambda>(k, e). if isActive_entry t k then playing e
                                else \<not> playing e \<and> currentTime e = 0)
              (videoRefs (playPauseEffect t)))"
proof -
  have i: "inv s" using assms by (rule reachable_inv)
  then have r: "refs_ok s" and ix: "idx_ok s" and pl: "play_ok s"
    by (simp_all add: inv_def pre_ok_def)
  have e: "videos s = [] \<Longrightarrow> playing_ids s = []"
    using r by (simp add: refs_ok_def playing_ids_def)
  have sub: "set (playing_ids s) \<subseteq> {fv_id (videos s ! nat (currentIndex s))}"
  proof
    fix k assume "k \<in> set (playing_ids s)"
    then obtain el where "(k, el) \<in> set (videoRefs s)" "playing el"
      by (auto simp: playing_ids_def)
    then have "isActive_entry s k" using pl by (auto simp: play_ok_iff)
    then show "k \<in> {fv_id (videos s ! nat (currentIndex s))}"
      using isActive_id[of s k] ix by (simp add: idx_ok_def)
  qed
  have d: "distinct (playing_ids s)"
    using r unfolding playing_ids_def refs_ok_def by (simp add: distinct_filter_keys)
  have len: "length (playing_ids s) \<le> 1" using distinct_singleton_length[OF d sub] .
  have eff: "length (videos t) \<noteq> 0 \<Longrightarrow>
            list_all (\<lambda>(k, e). if isActive_entry t k then playing e
                                else \<not> playing e \<and> currentTime e = 0)
              (videoRefs (playPauseEffect t))"
    by (simp add: playPauseEffect_def list_all_iff case_prod_unfold pp_entry_key
        pp_entry_playing pp_entry_time)
  show ?thesis using e sub len eff ix by (auto simp: idx_ok_def)
qed

subsection \<open>A concrete session\<close>

lemmas machine_simps = exact_def
  three_raw_def sample_raw_def mount_def key_missing_def API_KEY_def DEFAULT_KEY_def
  initial_gstate_def idle_scroll_def step_def settle_def commit_def run_effects_def fetch_answer_def
  formatted_of_def formatVideo_def nullish_def map_filter_simps Let_def render_refs_def
  render_cards_def muteEffect_def playPauseEffect_def playPause_entry_def isActive_entry_def
  snapToIndex_def getCardByIndex_def set_style_def snapTimeout_fire_def wheelTimeout_fire_def
  handleTouchStart_def handleTouchMove_def handleTouchEnd_def handleWheel_def handleVideoClick_def
  update_element_def listening_def fresh_element_def fresh_card_def upto.simps

lemma reachable_run: "reachable s \<Longrightarrow> reachable (run es s)"
  by (induction es arbitrary: s) (simp_all add: reachable.stepped)

lemma run_snoc: "run (es @ [e]) s = step e (run es s)"
  by (induction es arbitrary: s) simp_all

lemma trace_click_state:
  "run trace_click (mount exact None) =
     \<lparr> videos = formatted_of three_raw, status = Success, errorMessage = None,
       unmutedVideoId = Some 1, currentIndex = 0,
       videoRefs = [(1, \<lparr> playing = True, muted = False, currentTime = 0 \<rparr>),
                    (2, \<lparr> playing = False, muted = True, currentTime = 0 \<rparr>),
                    (3, \<lparr> playing = False, muted = True, currentTime = 0 \<rparr>)],
       feedRef = True, cards = [fresh_card, fresh_card, fresh_card],
       scrollState = idle_scroll\<lparr> targetIndex := 0 \<rparr>,
       wheelTimeout = False, snapTimeouts = [], scrolledTo = Some (0, True),
       fetchPending = False, fl = exact \<rparr>"
  by (simp add: trace_click_def machine_simps)

lemma trace_scroll_state:
  "run trace_scroll (mount exact None) =
     \<lparr> videos = formatted_of three_raw, status = Success, errorMessage = None,
       unmutedVideoId = None, currentIndex = 1,
       videoRefs = [(1, \<lparr> playing = False, muted = True, currentTime = 0 \<rparr>),
                    (2, \<lparr> playing = True, muted = True, currentTime = 0 \<rparr>),
                    (3, \<lparr> playing = False, muted = True, currentTime = 0 \<rparr>)],
       feedRef = True, cards = [fresh_card, fresh_card, fresh_card],
       scrollState = \<lparr> isScrolling = True, isDragging = False, startY = 0, currentY = 0,
                       lastScrollTime = 0, accumulatedDelta = 0, targetIndex = 1 \<rparr>,
       wheelTimeout = False, snapTimeouts = [500], scrolledTo = Some (1, False),
       fetchPending = False, fl = exact \<rparr>"
  by (simp add: trace_scroll_def trace_click_def machine_simps)

theorem single_playing_element_witness:
  "reachable (run trace_scroll (mount exact None))
   \<and> videos (run trace_scroll (mount exact None)) \<noteq> []
   \<and> currentIndex (run trace_scroll (mount exact None)) = 1
   \<and> fv_id (videos (run trace_scroll (mount exact None))
          ! nat (currentIndex (run trace_scroll (mount exact None)))) = 2
   \<and> playing_ids (run trace_scroll (mount exact None)) = [2]"
proof -
  have r: "reachable (run trace_scroll (mount exact None))"
    by (rule reachable_run) (rule reachable.mounted)
  have v: "videos (run trace_scroll (mount exact None)) \<noteq> []"
    unfolding trace_scroll_state by (simp add: machine_simps)
  have p: "playing_ids (run trace_scroll (mount exact None)) = [2]"
    by (simp add: trace_scroll_state playing_ids_def)
  have k: "fv_id (videos (run trace_scroll (mount exact None))
          ! nat (currentIndex (run trace_scroll (mount exact None)))) = 2"
    unfolding trace_scroll_state by (simp add: machine_simps)
  show ?thesis
    using single_playing_element [OF r, of "run trace_scroll (mount exact None)"] r v p k
    by (simp add: trace_scroll_state)
qed

subsection \<open>The unmuted video\<close>

text \<open>
  C2.  In every state the component reaches, once the effects have run: an element
  that is not muted is registered under the id held by \<open>unmutedVideoId\<close>, so at most one
  element is unmuted; when \<open>unmutedVideoId\<close> holds an id, that id is registered and is the
  id of the item at \<open>currentIndex\<close>; and after any event that changes \<open>currentIndex\<close>,
  \<open>unmutedVideoId\<close> is null and every registered element is muted.
\<close>

theorem unmuted_is_current:
  assumes "reachable s"
  shows "list_all (\<lambda>(k, e). \<not> muted e \<longrightarrow> unmutedVideoId s = Some k) (videoRefs s)
       \<and> length (filter (\<lambda>(k, e). \<not> muted e) (videoRefs s)) \<le> 1
       \<and> (\<forall>k. unmutedVideoId s = Some k \<longrightarrow>
              videos s \<noteq> [] \<and> 0 \<le> currentIndex s \<and> currentIndex s < int (length (videos s))
              \<and> fv_id (videos s ! nat (currentIndex s)) = k
              \<and> k \<in> set (map fst (videoRefs s)))
       \<and> (currentIndex (step ev s) \<noteq> currentIndex s \<longrightarrow>
              unmutedVideoId (step ev s) = None
              \<and> list_all (\<lambda>(k, e). muted e) (videoRefs (step ev s)))"
proof -
  have i: "inv s" using assms by (rule reachable_inv)
  then have r: "refs_ok s" and ix: "idx_ok s" and m: "mute_ok s" and ur: "unm_reg s"
    and uo: "unm_ok s"
    by (simp_all add: inv_def pre_ok_def)
  have a: "list_all (\<lambda>(k, e). \<not> muted e \<longrightarrow> unmutedVideoId s = Some k) (videoRefs s)"
    using m by (simp add: mute_ok_def)
  have d: "distinct (map fst (filter (\<lambda>(k, e). \<not> muted e) (videoRefs s)))"
    using r by (simp add: refs_ok_def distinct_filter_keys)
  have b: "length (filter (\<lambda>(k, e). \<not> muted e) (videoRefs s)) \<le> 1"
  proof (cases "unmutedVideoId s")
    case None
    then have "filter (\<lambda>(k, e). \<not> muted e) (videoRefs s) = []"
      using m by (auto simp: mute_ok_iff filter_empty_conv)
    then show ?thesis by simp
  next
    case (Some k)
    have "set (map fst (filter (\<lambda>(k, e). \<not> muted e) (videoRefs s))) \<subseteq> {k}"
      using m Some by (auto simp: mute_ok_iff)
    from distinct_singleton_length[OF d this] show ?thesis by simp
  qed
  have c: "\<forall>k. unmutedVideoId s = Some k \<longrightarrow>
              videos s \<noteq> [] \<and> 0 \<le> currentIndex s \<and> currentIndex s < int (length (videos s))
              \<and> fv_id (videos s ! nat (currentIndex s)) = k
              \<and> k \<in> set (map fst (videoRefs s))"
  proof (intro allI impI)
    fix k assume u: "unmutedVideoId s = Some k"
    then have ne: "videos s \<noteq> []" using ix by (auto simp: idx_ok_def)
    have act: "isActive_entry s k" using uo u by (simp add: unm_ok_iff)
    have reg: "k \<in> set (map fst (videoRefs s))" using ur u by (simp add: unm_reg_iff)
    show "videos s \<noteq> [] \<and> 0 \<le> currentIndex s \<and> currentIndex s < int (length (videos s))
              \<and> fv_id (videos s ! nat (currentIndex s)) = k
              \<and> k \<in> set (map fst (videoRefs s))"
      using ne ix isActive_id[OF act] reg by (simp add: idx_ok_def)
  qed
  have e: "currentIndex (step ev s) \<noteq> currentIndex s \<Longrightarrow>
              unmutedVideoId (step ev s) = None
              \<and> list_all (\<lambda>(k, e). muted e) (videoRefs (step ev s))"
  proof -
    assume ch: "currentIndex (step ev s) \<noteq> currentIndex s"
    have n: "unmutedVideoId (step ev s) = None" by (rule step_index_changed_unmuted[OF i ch])
    have "mute_ok (step ev s)" using step_inv[OF i, of ev] by (simp add: inv_def pre_ok_def)
    then have "list_all (\<lambda>(k, e). muted e) (videoRefs (step ev s))"
      using n by (auto simp: mute_ok_iff list_all_iff)
    then show ?thesis using n by simp
  qed
  show ?thesis using a b c e by blast
qed

theorem unmuted_is_current_witness:
  "reachable (run trace_click (mount exact None))
   \<and> unmutedVideoId (run trace_click (mount exact None)) = Some 1
   \<and> fv_id (videos (run trace_click (mount exact None))
        ! nat (currentIndex (run trace_click (mount exact None)))) = 1
   \<and> currentIndex (step (Wheel 100 0 800) (run trace_click (mount exact None)))
        \<noteq> currentIndex (run trace_click (mount exact None))
   \<and> unmutedVideoId (step (Wheel 100 0 800) (run trace_click (mount exact None))) = None
   \<and> list_all (\<lambda>(k, e). muted e) (videoRefs (step (Wheel 100 0 800) (run trace_click (mount exact None))))"
proof -
  have r: "reachable (run trace_click (mount exact None))"
    by (rule reachable_run) (rule reachable.mounted)
  have s: "step (Wheel 100 0 800) (run trace_click (mount exact None)) = run trace_scroll (mount exact None)"
    by (simp add: trace_scroll_def run_snoc)
  have u: "unmutedVideoId (run trace_click (mount exact None)) = Some 1"
    by (simp add: trace_click_state)
  have ch: "currentIndex (step (Wheel 100 0 800) (run trace_click (mount exact None)))
        \<noteq> currentIndex (run trace_click (mount exact None))"
    unfolding s by (simp add: trace_click_state trace_scroll_state)
  show ?thesis
    using unmuted_is_current [OF r, of "Wheel 100 0 800"] r u ch by simp
qed

subsection \<open>Gestures at a boundary\<close>

lemma trace_one_state:
  "run trace_one (mount exact None) =
     \<lparr> videos = formatted_of one_raw, status = Success, errorMessage = None,
       unmutedVideoId = None, currentIndex = 0,
       videoRefs = [(1, \<lparr> playing = True, muted = True, currentTime = 0 \<rparr>)],
       feedRef = True, cards = [fresh_card],
       scrollState = idle_scroll\<lparr> targetIndex := 0 \<rparr>,
       wheelTimeout = False, snapTimeouts = [], scrolledTo = Some (0, True),
       fetchPending = False, fl = exact \<rparr>"
  by (simp add: trace_one_def one_raw_def machine_simps)

lemma trace_drag_state:
  "run trace_drag (mount exact None) =
     \<lparr> videos = formatted_of one_raw, status = Success, errorMessage = None,
       unmutedVideoId = None, currentIndex = 0,
       videoRefs = [(1, \<lparr> playing = True, muted = True, currentTime = 0 \<rparr>)],
       feedRef = True, cards = [\<lparr> transform = TranslateY (- 48), transition = TransitionNone \<rparr>],
       scrollState = idle_scroll\<lparr> targetIndex := 0, isDragging := True, startY := 500, currentY := 100 \<rparr>,
       wheelTimeout = False, snapTimeouts = [], scrolledTo = Some (0, True),
       fetchPending = False, fl = exact \<rparr>"
  by (simp add: trace_drag_def trace_one_def one_raw_def machine_simps)

lemma wheel_boundary:
  fixes s :: "'a gstate_scheme"
  assumes a: "\<not> isScrolling (scrollState s)"
    and b: "\<bar>fl s (accumulatedDelta (scrollState s) + deltaY)\<bar> \<ge> fl s (cardHeight * fl s (1 / 100))"
    and c: "currentIndex s + (if fl s (accumulatedDelta (scrollState s) + deltaY) > 0 then 1 else - 1) < 0
            \<or> currentIndex s + (if fl s (accumulatedDelta (scrollState s) + deltaY) > 0 then 1 else - 1)
                 \<ge> int (length (videos s))"
  shows "handleWheel deltaY now cardHeight s =
     (let s2 = s\<lparr> scrollState := (scrollState s)\<lparr> lastScrollTime := now,
                    accumulatedDelta := fl s (accumulatedDelta (scrollState s) + deltaY) \<rparr> \<rparr>
      in (case getCardByIndex s (currentIndex s) of
            None \<Rightarrow> s2
          | Some currentCard \<Rightarrow>
              set_style currentCard
                (TranslateY (max (- 50) (min 50
                   (fl s (- fl s (accumulatedDelta (scrollState s) + deltaY) * fl s (12 / 100))))))
                TransitionNone s2)\<lparr> wheelTimeout := True \<rparr>)"
proof -
  have g: "\<And>x c. getCardByIndex (s\<lparr> scrollState := x \<rparr>) c = getCardByIndex s c"
    by (simp add: getCardByIndex_def)
  show ?thesis
  proof (cases "fl s (accumulatedDelta (scrollState s) + deltaY) > 0")
    case True
    then have nr: "(0 \<le> currentIndex s + 1 \<and> currentIndex s + 1 < int (length (videos s))) = False"
      using c by auto
    show ?thesis
      unfolding handleWheel_def Let_def
      using a b True by (simp add: g nr split: option.splits)
  next
    case False
    then have nr: "(0 < currentIndex s \<and> currentIndex s - 1 < int (length (videos s))) = False"
      using c by auto
    show ?thesis
      unfolding handleWheel_def Let_def
      using a b False by (simp add: g nr split: option.splits)
  qed
qed

lemma touchEnd_boundary:
  fixes s :: "'a gstate_scheme"
  assumes a: "isDragging (scrollState s)"
    and b: "\<bar>fl s (startY (scrollState s) - currentY (scrollState s))\<bar> \<ge> fl s (cardHeight * fl s (25 / 100))"
    and c: "currentIndex s + (if fl s (startY (scrollState s) - currentY (scrollState s)) > 0 then 1 else - 1) < 0
            \<or> currentIndex s + (if fl s (startY (scrollState s) - currentY (scrollState s)) > 0 then 1 else - 1)
                 \<ge> int (length (videos s))"
  shows "handleTouchEnd cardHeight s =
     (case getCardByIndex s (currentIndex s) of
        None \<Rightarrow> s
      | Some currentCard \<Rightarrow> set_style currentCard NoTransform Transition250 s)
     \<lparr> scrollState :=
         (scrollState (case getCardByIndex s (currentIndex s) of
                         None \<Rightarrow> s
                       | Some currentCard \<Rightarrow> set_style currentCard NoTransform Transition250 s))
         \<lparr> isDragging := False, startY := 0, currentY := 0 \<rparr> \<rparr>"
proof (cases "fl s (startY (scrollState s) - currentY (scrollState s)) > 0")
  case True
  then have nr: "(0 \<le> currentIndex s + 1 \<and> currentIndex s + 1 < int (length (videos s))) = False"
    using c by auto
  show ?thesis
    unfolding handleTouchEnd_def Let_def
    using a b True by (simp add: nr split: option.splits)
next
  case False
  then have nr: "(0 < currentIndex s \<and> currentIndex s - 1 < int (length (videos s))) = False"
    using c by auto
  show ?thesis
    unfolding handleTouchEnd_def Let_def
    using a b False by (simp add: nr split: option.splits)
qed

lemma commit_same:
  "videos x = videos prev \<Longrightarrow> unmutedVideoId x = unmutedVideoId prev \<Longrightarrow>
   currentIndex x = currentIndex prev \<Longrightarrow> commit prev x = x"
  by (simp add: commit_def run_effects_def)

lemma settle_same:
  "videos x = videos prev \<Longrightarrow> unmutedVideoId x = unmutedVideoId prev \<Longrightarrow>
   currentIndex x = currentIndex prev \<Longrightarrow> settle prev x = x"
  by (simp add: settle_def commit_same)

text \<open>
  C4, as stated, fails for the wheel: at a boundary the handler keeps the accumulated
  delta, which it needs for the boundary transform, and only the idle timer resets it.
  With one item, a wheel event of \<open>deltaY = 10\<close> on a feed of height 100 crosses the
  threshold, the next index is out of range, and \<open>accumulatedDelta\<close> is 10 afterwards.
\<close>

theorem boundary_wheel_delta_counterexample:
  "\<not> isScrolling (scrollState (run trace_one (mount exact None)))
   \<and> \<bar>fl (run trace_one (mount exact None))
         (accumulatedDelta (scrollState (run trace_one (mount exact None))) + 10)\<bar>
        \<ge> fl (run trace_one (mount exact None)) (100 * fl (run trace_one (mount exact None)) (1 / 100))
   \<and> currentIndex (run trace_one (mount exact None)) + 1 \<ge> int (length (videos (run trace_one (mount exact None))))
   \<and> accumulatedDelta (scrollState (step (Wheel 10 0 100) (run trace_one (mount exact None)))) = 10"
  unfolding trace_one_state
  by (simp add: one_raw_def machine_simps)

text \<open>
  C4 (amended).  When the accumulated wheel delta crosses the threshold and the next
  index is out of range, \<open>handleWheel\<close> changes nothing but the scroll state, the style of
  the cards and the idle timer: \<open>currentIndex\<close>, \<open>videos\<close>, \<open>status\<close>, \<open>errorMessage\<close>,
  \<open>unmutedVideoId\<close>, the registry of elements and every further part of the component
  state (the record extension, where a pagination flag would live) are unchanged, and no
  effect runs in the commit that follows.  The handler stamps \<open>lastScrollTime\<close>, keeps
  the accumulated delta and arms the idle timer; when that timer runs,
  \<open>accumulatedDelta\<close> is 0 and again nothing but the scroll state, the style of the cards
  and the timer has changed.  When a drag over the threshold is released and the next
  index is out of range, \<open>handleTouchEnd\<close> changes nothing but the scroll state and the
  style of the cards: it ends the drag with both offsets reset to 0 and does not touch
  \<open>accumulatedDelta\<close>.
\<close>

theorem boundary_gesture_frame:
  fixes s :: "'a gstate_scheme"
  shows
  "(let acc = fl s (accumulatedDelta (scrollState s) + deltaY);
        threshold = fl s (cardHeight * fl s (1 / 100));
        nextIndex = currentIndex s + (if acc > 0 then 1 else - 1);
        s' = handleWheel deltaY now cardHeight s;
        s'' = wheelTimeout_fire s'
    in \<not> isScrolling (scrollState s) \<and> \<bar>acc\<bar> \<ge> threshold
       \<and> (nextIndex < 0 \<or> nextIndex \<ge> int (length (videos s)))
      \<longrightarrow>
       currentIndex s' = currentIndex s \<and> videos s' = videos s \<and> status s' = status s
       \<and> errorMessage s' = errorMessage s \<and> unmutedVideoId s' = unmutedVideoId s
       \<and> videoRefs s' = videoRefs s \<and> gstate.more s' = gstate.more s
       \<and> s'\<lparr> scrollState := scrollState s, cards := cards s, wheelTimeout := wheelTimeout s \<rparr> = s
       \<and> scrollState s' = (scrollState s)\<lparr> lastScrollTime := now, accumulatedDelta := acc \<rparr>
       \<and> accumulatedDelta (scrollState s') = acc
       \<and> wheelTimeout s'
       \<and> (listening s \<longrightarrow> step (Wheel deltaY now cardHeight) s = s')
       \<and> accumulatedDelta (scrollState s'') = 0
       \<and> currentIndex s'' = currentIndex s \<and> videos s'' = videos s \<and> status s'' = status s
       \<and> errorMessage s'' = errorMessage s \<and> unmutedVideoId s'' = unmutedVideoId s
       \<and> videoRefs s'' = videoRefs s \<and> gstate.more s'' = gstate.more s
       \<and> s''\<lparr> scrollState := scrollState s, cards := cards s, wheelTimeout := wheelTimeout s \<rparr> = s
       \<and> step WheelIdle s' = s'')
   \<and> (let deltaY = fl s (startY (scrollState s) - currentY (scrollState s));
          threshold = fl s (cardHeight * fl s (25 / 100));
          nextIndex = currentIndex s + (if deltaY > 0 then 1 else - 1);
          s' = handleTouchEnd cardHeight s
      in isDragging (scrollState s) \<and> \<bar>deltaY\<bar> \<ge> threshold
         \<and> (nextIndex < 0 \<or> nextIndex \<ge> int (length (videos s)))
        \<longrightarrow>
         currentIndex s' = currentIndex s \<and> videos s' = videos s \<and> status s' = status s
         \<and> errorMessage s' = errorMessage s \<and> unmutedVideoId s' = unmutedVideoId s
         \<and> videoRefs s' = videoRefs s \<and> gstate.more s' = gstate.more s
         \<and> s'\<lparr> scrollState := scrollState s, cards := cards s \<rparr> = s
         \<and> scrollState s' = (scrollState s)\<lparr> isDragging := False, startY := 0, currentY := 0 \<rparr>
         \<and> \<not> isDragging (scrollState s') \<and> startY (scrollState s') = 0 \<and> currentY (scrollState s') = 0
         \<and> accumulatedDelta (scrollState s') = accumulatedDelta (scrollState s)
         \<and> (listening s \<longrightarrow> step (TouchEnd cardHeight) s = s'))"
proof -
  let ?acc = "fl s (accumulatedDelta (scrollState s) + deltaY)"
  let ?w = "handleWheel deltaY now cardHeight s"
  let ?d = "fl s (startY (scrollState s) - currentY (scrollState s))"
  let ?t = "handleTouchEnd cardHeight s"
  have W: "currentIndex ?w = currentIndex s \<and> videos ?w = videos s \<and> status ?w = status s
       \<and> errorMessage ?w = errorMessage s \<and> unmutedVideoId ?w = unmutedVideoId s
       \<and> videoRefs ?w = videoRefs s \<and> gstate.more ?w = gstate.more s
       \<and> ?w\<lparr> scrollState := scrollState s, cards := cards s, wheelTimeout := wheelTimeout s \<rparr> = s
       \<and> scrollState ?w = (scrollState s)\<lparr> lastScrollTime := now, accumulatedDelta := ?acc \<rparr>
       \<and> accumulatedDelta (scrollState ?w) = ?acc
       \<and> wheelTimeout ?w
       \<and> (listening s \<longrightarrow> step (Wheel deltaY now cardHeight) s = ?w)
       \<and> accumulatedDelta (scrollState (wheelTimeout_fire ?w)) = 0
       \<and> currentIndex (wheelTimeout_fire ?w) = currentIndex s \<and> videos (wheelTimeout_fire ?w) = videos s
       \<and> status (wheelTimeout_fire ?w) = status s
       \<and> errorMessage (wheelTimeout_fire ?w) = errorMessage s
       \<and> unmutedVideoId (wheelTimeout_fire ?w) = unmutedVideoId s
       \<and> videoRefs (wheelTimeout_fire ?w) = videoRefs s
       \<and> gstate.more (wheelTimeout_fire ?w) = gstate.more s
       \<and> (wheelTimeout_fire ?w)\<lparr> scrollState := scrollState s, cards := cards s,
                                  wheelTimeout := wheelTimeout s \<rparr> = s
       \<and> step WheelIdle ?w = wheelTimeout_fire ?w"
    if a: "\<not> isScrolling (scrollState s)"
      and b: "\<bar>?acc\<bar> \<ge> fl s (cardHeight * fl s (1 / 100))"
      and c: "currentIndex s + (if ?acc > 0 then 1 else - 1) < 0
              \<or> currentIndex s + (if ?acc > 0 then 1 else - 1) \<ge> int (length (videos s))"
  proof -
    note e = wheel_boundary[OF a b c, of now]
    have f1: "currentIndex ?w = currentIndex s" "videos ?w = videos s" "status ?w = status s"
      "errorMessage ?w = errorMessage s" "unmutedVideoId ?w = unmutedVideoId s"
      "videoRefs ?w = videoRefs s" "gstate.more ?w = gstate.more s"
      "?w\<lparr> scrollState := scrollState s, cards := cards s, wheelTimeout := wheelTimeout s \<rparr> = s"
      "scrollState ?w = (scrollState s)\<lparr> lastScrollTime := now, accumulatedDelta := ?acc \<rparr>"
      "wheelTimeout ?w"
      unfolding e by (simp_all add: Let_def set_style_def split: option.splits)
    let ?f = "wheelTimeout_fire ?w"
    have f2: "accumulatedDelta (scrollState ?f) = 0"
      "currentIndex ?f = currentIndex s" "videos ?f = videos s" "status ?f = status s"
      "errorMessage ?f = errorMessage s" "unmutedVideoId ?f = unmutedVideoId s"
      "videoRefs ?f = videoRefs s" "gstate.more ?f = gstate.more s"
      "?f\<lparr> scrollState := scrollState s, cards := cards s, wheelTimeout := wheelTimeout s \<rparr> = s"
      unfolding e
      by (simp_all add: Let_def set_style_def wheelTimeout_fire_def getCardByIndex_def
          split: option.splits)
    have s1: "listening s \<longrightarrow> step (Wheel deltaY now cardHeight) s = ?w"
      by (simp add: step_def settle_same f1)
    have s2: "step WheelIdle ?w = ?f"
      by (simp add: step_def settle_same f1 f2)
    show ?thesis using f1 f2 s1 s2 by simp
  qed
  have T: "currentIndex ?t = currentIndex s \<and> videos ?t = videos s \<and> status ?t = status s
         \<and> errorMessage ?t = errorMessage s \<and> unmutedVideoId ?t = unmutedVideoId s
         \<and> videoRefs ?t = videoRefs s \<and> gstate.more ?t = gstate.more s
         \<and> ?t\<lparr> scrollState := scrollState s, cards := cards s \<rparr> = s
         \<and> scrollState ?t = (scrollState s)\<lparr> isDragging := False, startY := 0, currentY := 0 \<rparr>
         \<and> \<not> isDragging (scrollState ?t) \<and> startY (scrollState ?t) = 0 \<and> currentY (scrollState ?t) = 0
         \<and> accumulatedDelta (scrollState ?t) = accumulatedDelta (scrollState s)
         \<and> (listening s \<longrightarrow> step (TouchEnd cardHeight) s = ?t)"
    if a: "isDragging (scrollState s)"
      and b: "\<bar>?d\<bar> \<ge> fl s (cardHeight * fl s (25 / 100))"
      and c: "currentIndex s + (if ?d > 0 then 1 else - 1) < 0
              \<or> currentIndex s + (if ?d > 0 then 1 else - 1) \<ge> int (length (videos s))"
  proof -
    note e = touchEnd_boundary[OF a b c]
    have f1: "currentIndex ?t = currentIndex s" "videos ?t = videos s" "status ?t = status s"
      "errorMessage ?t = errorMessage s" "unmutedVideoId ?t = unmutedVideoId s"
      "videoRefs ?t = videoRefs s" "gstate.more ?t = gstate.more s"
      "?t\<lparr> scrollState := scrollState s, cards := cards s \<rparr> = s"
      "scrollState ?t = (scrollState s)\<lparr> isDragging := False, startY := 0, currentY := 0 \<rparr>"
      unfolding e by (simp_all add: Let_def set_style_def split: option.splits)
    have s1: "listening s \<longrightarrow> step (TouchEnd cardHeight) s = ?t"
      by (simp add: step_def settle_same f1)
    show ?thesis using f1 s1 by simp
  qed
  show ?thesis unfolding Let_def using W T by blast
qed

theorem boundary_gesture_frame_witness:
  "\<not> isScrolling (scrollState (run trace_one (mount exact None)))
   \<and> \<bar>fl (run trace_one (mount exact None))
         (accumulatedDelta (scrollState (run trace_one (mount exact None))) + 10)\<bar>
        \<ge> fl (run trace_one (mount exact None)) (100 * fl (run trace_one (mount exact None)) (1 / 100))
   \<and> currentIndex (handleWheel 10 0 100 (run trace_one (mount exact None))) = 0
   \<and> videoRefs (handleWheel 10 0 100 (run trace_one (mount exact None))) =
       videoRefs (run trace_one (mount exact None))
   \<and> accumulatedDelta (scrollState (handleWheel 10 0 100 (run trace_one (mount exact None)))) = 10
   \<and> step (Wheel 10 0 100) (run trace_one (mount exact None)) =
       handleWheel 10 0 100 (run trace_one (mount exact None))
   \<and> accumulatedDelta (scrollState (wheelTimeout_fire (handleWheel 10 0 100 (run trace_one (mount exact None))))) = 0
   \<and> isDragging (scrollState (run trace_drag (mount exact None)))
   \<and> \<bar>fl (run trace_drag (mount exact None))
         (startY (scrollState (run trace_drag (mount exact None)))
          - currentY (scrollState (run trace_drag (mount exact None))))\<bar>
        \<ge> fl (run trace_drag (mount exact None)) (800 * fl (run trace_drag (mount exact None)) (25 / 100))
   \<and> currentIndex (handleTouchEnd 800 (run trace_drag (mount exact None))) = 0
   \<and> unmutedVideoId (handleTouchEnd 800 (run trace_drag (mount exact None))) =
       unmutedVideoId (run trace_drag (mount exact None))
   \<and> \<not> isDragging (scrollState (handleTouchEnd 800 (run trace_drag (mount exact None))))"
proof -
  let ?S = "run trace_one (mount exact None)"
  let ?D = "run trace_drag (mount exact None)"
  have w: "\<not> isScrolling (scrollState ?S)"
    "\<bar>fl ?S (accumulatedDelta (scrollState ?S) + 10)\<bar> \<ge> fl ?S (100 * fl ?S (1 / 100))"
    "currentIndex ?S + (if fl ?S (accumulatedDelta (scrollState ?S) + 10) > 0 then 1 else - 1) < 0
      \<or> currentIndex ?S + (if fl ?S (accumulatedDelta (scrollState ?S) + 10) > 0 then 1 else - 1)
           \<ge> int (length (videos ?S))"
    "listening ?S"
    unfolding trace_one_state by (simp_all add: one_raw_def machine_simps)
  have t: "isDragging (scrollState ?D)"
    "\<bar>fl ?D (startY (scrollState ?D) - currentY (scrollState ?D))\<bar> \<ge> fl ?D (800 * fl ?D (25 / 100))"
    "currentIndex ?D + (if fl ?D (startY (scrollState ?D) - currentY (scrollState ?D)) > 0 then 1 else - 1) < 0
      \<or> currentIndex ?D + (if fl ?D (startY (scrollState ?D) - currentY (scrollState ?D)) > 0 then 1 else - 1)
           \<ge> int (length (videos ?D))"
    unfolding trace_drag_state by (simp_all add: one_raw_def machine_simps)
  have c0: "currentIndex ?S = 0" "currentIndex ?D = 0"
    "fl ?S (accumulatedDelta (scrollState ?S) + 10) = 10"
    by (simp_all add: trace_one_state trace_drag_state idle_scroll_def exact_def)
  note W = boundary_gesture_frame [where s = ?S and deltaY = 10 and cardHeight = 100 and now = 0,
      unfolded Let_def, THEN conjunct1, rule_format, OF conjI [OF w(1) conjI [OF w(2) w(3)]]]
  note T = boundary_gesture_frame [where s = ?D and deltaY = 0 and cardHeight = 800 and now = 0,
      unfolded Let_def, THEN conjunct2, rule_format, OF conjI [OF t(1) conjI [OF t(2) t(3)]]]
  show ?thesis using W T w t c0 by simp
qed

subsection \<open>Snapping\<close>






























lemma touchEnd_no_drag: "\<not> isDragging (scrollState t) \<Longrightarrow> step (TouchEnd cardHeight) t = t"
  by (simp add: step_def settle_same handleTouchEnd_def)







subsection \<open>The audio toggle and the commit that follows it\<close>






















end
